theory Spec2Isabelle
  imports Main
begin

section \<open>Type shapes\<close>

text \<open>
  The repository is a set of type-level functions, evaluated by the TypeScript checker.
  The embedding represents the types they work on as data and each utility as a function
  on that data, following the checker's rules for the operators the utility is written
  with (\<open>keyof\<close>, indexed access, mapped types, conditional types with \<open>infer\<close>,
  intersections).

  A property carries its name, its declared type, and the two per-key attributes:
  optional (\<open>?\<close>) and read-only (\<open>readonly\<close>). A tuple element carries its type and
  whether it is optional. A function type has the list of its parameter types and a
  return type, which is either \<open>Promise<t>\<close> or a plain type. The type \<open>boolean\<close> is the
  union of the literal types \<open>true\<close> and \<open>false\<close>, as in the checker. An intersection is
  kept as written, with its two constituents; its members are resolved by \<open>props_of\<close>.

  Left out: \<open>null\<close>, \<open>void\<close>, \<open>symbol\<close> and \<open>bigint\<close>, index signatures, numeric and
  symbol keys, optional and rest parameters, generic signatures, classes.

  Two options of the consuming program's checker change what the utilities compute.
  Both are parameters of the model: \<open>snc\<close> (strictNullChecks) wherever an optional
  property is read or \<open>undefined\<close> is assigned, and \<open>sft\<close> (strictFunctionTypes) wherever
  the parameters of two function types are compared.
\<close>

datatype 'a property = Prop (pname: string) (ptype: 'a) (popt: bool) (pro: bool)

datatype 'a element = Elem (etype: 'a) (eopt: bool)

datatype 'a ret = Promise 'a | Plain 'a

datatype ty =
    TAny
  | TUnknown
  | TNever
  | TUndefined
  | TString
  | TNumber
  | TStrLit string
  | TNumLit int
  | TBoolLit bool
  | TObj "ty property list"
  | TArray bool ty
  | TTuple bool "ty element list"
  | TFun "ty list" "ty ret"
  | TUnion "ty list"
  | TInter ty ty

text \<open>In \<open>TArray ro t\<close> and \<open>TTuple ro es\<close> the flag says whether the array is read-only.\<close>

datatype modifier = Keep | Add | Remove

section \<open>Unions\<close>

text \<open>
  The constituents of a type: the members of a union (nested unions flattened), none for
  \<open>never\<close>, the type itself otherwise. A distributive conditional type is evaluated once
  for each constituent.
\<close>

fun members :: "ty \<Rightarrow> ty list" where
  "members (TUnion ms) = concat (map members ms)"
| "members TNever = []"
| "members t = [t]"

text \<open>A literal type is absorbed by its primitive type when both are in one union.\<close>

definition literal_absorbed :: "ty list \<Rightarrow> ty \<Rightarrow> bool" where
  "literal_absorbed ms t =
     (case t of TStrLit s \<Rightarrow> TString \<in> set ms
              | TNumLit n \<Rightarrow> TNumber \<in> set ms
              | _ \<Rightarrow> False)"

text \<open>
  Forming a union: constituents are flattened and deduplicated, \<open>any\<close> and \<open>unknown\<close>
  absorb everything, an empty union is \<open>never\<close> and a union of one is that type.
\<close>

definition union_of :: "ty list \<Rightarrow> ty" where
  "union_of ts =
     (let ms = remdups (concat (map members ts)) in
      if TAny \<in> set ms then TAny
      else if TUnknown \<in> set ms then TUnknown
      else (case filter (\<lambda>t. \<not> literal_absorbed ms t) ms of
              [] \<Rightarrow> TNever
            | [t] \<Rightarrow> t
            | us \<Rightarrow> TUnion us))"

definition remove_undefined :: "ty \<Rightarrow> ty" where
  "remove_undefined t = union_of (filter (\<lambda>m. m \<noteq> TUndefined) (members t))"

text \<open>
  The flag \<open>snc\<close> stands for the checker option strictNullChecks of the consuming
  program. With it, reading an optional property or tuple element gives its declared
  type joined with \<open>undefined\<close>; without it, \<open>undefined\<close> is never added.
\<close>

definition with_undefined :: "bool \<Rightarrow> ty \<Rightarrow> ty" where
  "with_undefined snc t = (if snc then union_of [t, TUndefined] else t)"

definition prop_read :: "bool \<Rightarrow> ty property \<Rightarrow> ty" where
  "prop_read snc p = (if popt p then with_undefined snc (ptype p) else ptype p)"

definition elem_read :: "bool \<Rightarrow> ty element \<Rightarrow> ty" where
  "elem_read snc e = (if eopt e then with_undefined snc (etype e) else etype e)"

text \<open>
  A property produced by a mapped type. The declared type of an optional property is
  stored without \<open>undefined\<close> (reading adds it back); \<open>strip\<close> is set when the mapped type
  removes \<open>?\<close> from a property that was optional, which removes \<open>undefined\<close> as well.
\<close>

definition mk_prop :: "bool \<Rightarrow> string \<Rightarrow> ty \<Rightarrow> bool \<Rightarrow> bool \<Rightarrow> bool \<Rightarrow> ty property" where
  "mk_prop snc k t opt ro strip =
     Prop k (if snc \<and> (opt \<or> strip) then remove_undefined t else t) opt ro"

definition mk_elem :: "bool \<Rightarrow> ty \<Rightarrow> bool \<Rightarrow> bool \<Rightarrow> ty element" where
  "mk_elem snc t opt strip =
     Elem (if snc \<and> (opt \<or> strip) then remove_undefined t else t) opt"

definition apply_modifier :: "modifier \<Rightarrow> bool \<Rightarrow> bool" where
  "apply_modifier m was = (case m of Keep \<Rightarrow> was | Add \<Rightarrow> True | Remove \<Rightarrow> False)"

section \<open>Members of object shapes and intersections\<close>

text \<open>
  The type of a property that two constituents of an intersection share is the
  intersection of its two types; two equal types intersect to themselves, \<open>never\<close>
  absorbs, \<open>unknown\<close> is neutral and \<open>any\<close> absorbs the rest.
\<close>

definition inter_ty :: "ty \<Rightarrow> ty \<Rightarrow> ty" where
  "inter_ty a b =
     (if a = b then a
      else if a = TNever \<or> b = TNever then TNever
      else if a = TAny \<or> b = TAny then TAny
      else if a = TUnknown then b
      else if b = TUnknown then a
      else TInter a b)"

text \<open>
  A property of an intersection is optional only when it is optional in every constituent
  that has it, and read-only only when it is read-only in every constituent that has it.
\<close>

definition merge_props :: "ty property list \<Rightarrow> ty property list \<Rightarrow> ty property list" where
  "merge_props ps qs =
     map (\<lambda>p. case find (\<lambda>q. pname q = pname p) qs of
                None \<Rightarrow> p
              | Some q \<Rightarrow> Prop (pname p) (inter_ty (ptype p) (ptype q))
                           (popt p \<and> popt q) (pro p \<and> pro q)) ps
     @ filter (\<lambda>q. pname q \<notin> set (map pname ps)) qs"

text \<open>
  The named properties that \<open>keyof\<close> and mapped types see. A function type has none.
  Arrays, tuples and primitives take their members from the standard library's
  declarations, which are outside this development: the utilities that use \<open>keyof\<close>
  directly are stated for object shapes.
\<close>

fun props_of :: "ty \<Rightarrow> ty property list" where
  "props_of (TObj ps) = ps"
| "props_of (TInter a b) = merge_props (props_of a) (props_of b)"
| "props_of t = []"

definition keyof :: "ty \<Rightarrow> ty" where
  "keyof T = union_of (map (\<lambda>p. TStrLit (pname p)) (props_of T))"

definition prop_named :: "ty \<Rightarrow> string \<Rightarrow> ty property option" where
  "prop_named T k = find (\<lambda>p. pname p = k) (props_of T)"

text \<open>The property names in a key type \<open>K\<close>: its string-literal constituents.\<close>

fun key_name :: "ty \<Rightarrow> string list" where
  "key_name (TStrLit k) = [k]"
| "key_name t = []"

definition keys_in :: "ty \<Rightarrow> string list" where
  "keys_in K = concat (map key_name (members K))"

text \<open>
  Indexed access \<open>T[K]\<close>: the union of the types read from the properties named by \<open>K\<close>.
  (Indexing with a key that \<open>T\<close> lacks is rejected by the checker; it adds nothing here.)
\<close>

definition index_access :: "bool \<Rightarrow> ty \<Rightarrow> ty \<Rightarrow> ty" where
  "index_access snc T K =
     union_of (concat (map (\<lambda>k. case prop_named T k of
                                   None \<Rightarrow> []
                                 | Some p \<Rightarrow> [prop_read snc p]) (keys_in K)))"

section \<open>Mapped types\<close>

text \<open>
  \<open>{ readonly [P in K]?: tmpl P }\<close> with the two modifiers given as \<open>Keep\<close> (none written),
  \<open>Add\<close> or \<open>Remove\<close> (\<open>-readonly\<close>, \<open>-?\<close>). \<open>M\<close> is the type whose properties supply the
  attributes that a modifier keeps: the \<open>T\<close> of \<open>keyof T\<close> when that is the constraint of
  the key type or of the type parameter used as key type.
\<close>

definition mapped :: "bool \<Rightarrow> modifier \<Rightarrow> modifier \<Rightarrow> ty \<Rightarrow> ty \<Rightarrow> (string \<Rightarrow> ty) \<Rightarrow> ty" where
  "mapped snc ro_mod opt_mod M K tmpl =
     TObj (map (\<lambda>k.
       let was_opt = (case prop_named M k of None \<Rightarrow> False | Some p \<Rightarrow> popt p);
           was_ro = (case prop_named M k of None \<Rightarrow> False | Some p \<Rightarrow> pro p)
       in mk_prop snc k (tmpl k) (apply_modifier opt_mod was_opt)
            (apply_modifier ro_mod was_ro) (opt_mod = Remove \<and> was_opt)) (keys_in K))"

text \<open>
  The library types of the host that the utilities are written with:
  \<^verbatim>\<open>
  type Pick<T, K extends keyof T> = { [P in K]: T[P] };
  type Partial<T> = { [P in keyof T]?: T[P] };
  type Required<T> = { [P in keyof T]-?: T[P] };
  type Exclude<T, U> = T extends U ? never : T;
  type Extract<T, U> = T extends U ? T : never;
  \<close>
\<close>

definition Pick :: "bool \<Rightarrow> ty \<Rightarrow> ty \<Rightarrow> ty" where
  "Pick snc T K = mapped snc Keep Keep T K (\<lambda>k. index_access snc T (TStrLit k))"

definition Partial :: "bool \<Rightarrow> ty \<Rightarrow> ty" where
  "Partial snc T = mapped snc Keep Add T (keyof T) (\<lambda>k. index_access snc T (TStrLit k))"

definition Required :: "bool \<Rightarrow> ty \<Rightarrow> ty" where
  "Required snc T = mapped snc Keep Remove T (keyof T) (\<lambda>k. index_access snc T (TStrLit k))"

text \<open>
  Whether a key type \<open>m\<close> (one constituent) is assignable to the key type \<open>U\<close>: it is one
  of the constituents of \<open>U\<close>, or a literal whose primitive type is one.
\<close>

definition key_extends :: "ty \<Rightarrow> ty \<Rightarrow> bool" where
  "key_extends m U =
     (m \<in> set (members U) \<or> TAny \<in> set (members U) \<or> TUnknown \<in> set (members U)
      \<or> literal_absorbed (members U) m)"

definition Exclude :: "ty \<Rightarrow> ty \<Rightarrow> ty" where
  "Exclude T U = union_of (map (\<lambda>m. if key_extends m U then TNever else m) (members T))"

definition Extract :: "ty \<Rightarrow> ty \<Rightarrow> ty" where
  "Extract T U = union_of (map (\<lambda>m. if key_extends m U then m else TNever) (members T))"

section \<open>Type identity\<close>

text \<open>The type of a property or element is smaller than the shape or tuple that has it.\<close>

lemma size_ptype_less [termination_simp]:
  "p \<in> set ps \<Longrightarrow> size (ptype p) < Suc (size_list (size_property size) ps)"
proof (induction ps)
  case (Cons q qs)
  then show ?case by (cases q; cases p) auto
qed simp

lemma size_etype_less [termination_simp]:
  "e \<in> set es \<Longrightarrow> size (etype e) < Suc (size_list (size_element size) es)"
proof (induction es)
  case (Cons f fs)
  then show ?case by (cases f; cases e) auto
qed simp

text \<open>
  The identity relation of the checker on these types: two object shapes are identical
  when they have the same number of properties and every property of the first has a
  namesake in the second with the same attributes and an identical type; two unions are
  identical when each member of one has an identical member in the other. The order of
  properties and of union members does not matter. An intersection is identical only to
  an intersection of identical constituents.
\<close>

fun identical :: "ty \<Rightarrow> ty \<Rightarrow> bool" where
  "identical (TObj ps) t =
     (case t of
        TObj qs \<Rightarrow> length ps = length qs \<and>
          list_all (\<lambda>p. list_ex (\<lambda>q. pname q = pname p \<and> popt q = popt p \<and> pro q = pro p
                                    \<and> identical (ptype p) (ptype q)) qs) ps
      | _ \<Rightarrow> False)"
| "identical (TArray ro a) t =
     (case t of TArray ro' b \<Rightarrow> ro = ro' \<and> identical a b | _ \<Rightarrow> False)"
| "identical (TTuple ro es) t =
     (case t of
        TTuple ro' fs \<Rightarrow> ro = ro' \<and>
          list_all2 (\<lambda>e f. eopt e = eopt f \<and> identical (etype e) (etype f)) es fs
      | _ \<Rightarrow> False)"
| "identical (TFun ps r) t =
     (case t of
        TFun qs s \<Rightarrow> list_all2 identical ps qs \<and>
          (case r of
             Promise a \<Rightarrow> (case s of Promise b \<Rightarrow> identical a b | Plain b \<Rightarrow> False)
           | Plain a \<Rightarrow> (case s of Promise b \<Rightarrow> False | Plain b \<Rightarrow> identical a b))
      | _ \<Rightarrow> False)"
| "identical (TUnion ms) t =
     (case t of
        TUnion ns \<Rightarrow> list_all (\<lambda>m. list_ex (\<lambda>n. identical m n) ns) ms
                   \<and> list_all (\<lambda>n. list_ex (\<lambda>m. identical m n) ms) ns
      | _ \<Rightarrow> False)"
| "identical (TInter a b) t =
     (case t of
        TInter c d \<Rightarrow> (identical a c \<and> identical b d) \<or> (identical a d \<and> identical b c)
      | _ \<Rightarrow> False)"
| "identical t u = (t = u)"

section \<open>Assignability checks used by the conditional types\<close>

text \<open>
  \<open>v extends object\<close>: object shapes, arrays, tuples and functions are assignable to
  \<open>object\<close>, primitives are not, a union is when each member is, \<open>undefined\<close> is only
  without strictNullChecks. (Intersections here have object-shape constituents.)
\<close>

fun extends_object :: "bool \<Rightarrow> ty \<Rightarrow> bool" where
  "extends_object snc (TObj ps) = True"
| "extends_object snc (TArray ro t) = True"
| "extends_object snc (TTuple ro es) = True"
| "extends_object snc (TFun ps r) = True"
| "extends_object snc (TInter a b) = True"
| "extends_object snc (TUnion ms) = list_all (extends_object snc) ms"
| "extends_object snc TNever = True"
| "extends_object snc TAny = True"
| "extends_object snc TUndefined = (\<not> snc)"
| "extends_object snc t = False"

text \<open>
  \<open>{} extends X\<close>: the empty shape is assignable to an object shape exactly when
  none of its properties is required.
\<close>

fun empty_assignable_to :: "ty \<Rightarrow> bool" where
  "empty_assignable_to (TObj ps) = list_all popt ps"
| "empty_assignable_to (TInter a b) = (empty_assignable_to a \<and> empty_assignable_to b)"
| "empty_assignable_to (TUnion ms) = list_ex empty_assignable_to ms"
| "empty_assignable_to TAny = True"
| "empty_assignable_to TUnknown = True"
| "empty_assignable_to t = False"

text \<open>
  A conditional type whose checked type is \<open>any\<close> evaluates to the union of both arms.
\<close>

definition conditional :: "ty \<Rightarrow> bool \<Rightarrow> ty \<Rightarrow> ty \<Rightarrow> ty" where
  "conditional chk holds a b =
     (if chk = TAny then union_of [a, b] else if holds then a else b)"


section \<open>The Deep utilities\<close>

text \<open>
  With strictNullChecks, what is read from an optional property has \<open>undefined\<close> among
  its constituents and is not assignable to \<open>object\<close>. So a value that is assignable to
  \<open>object\<close> is the declared type of its property, which is what makes the recursion of
  the Deep utilities terminate.
\<close>

lemma undefined_in_union_not_object:
  "union_of [d, TUndefined] \<noteq> TAny \<Longrightarrow> \<not> extends_object True (union_of [d, TUndefined])"
proof -
  assume na: "union_of [d, TUndefined] \<noteq> TAny"
  let ?ms = "remdups (members d @ [TUndefined])"
  let ?us = "filter (\<lambda>t. \<not> literal_absorbed ?ms t) ?ms"
  have u: "TUndefined \<in> set ?us" by (simp add: literal_absorbed_def)
  show ?thesis
  proof (cases "TAny \<in> set ?ms")
    case True then show ?thesis using na by (simp add: union_of_def Let_def)
  next
    case False
    show ?thesis
    proof (cases "TUnknown \<in> set ?ms")
      case True then show ?thesis using False by (simp add: union_of_def Let_def)
    next
      case nu: False
      have eq: "union_of [d, TUndefined] =
                  (case ?us of [] \<Rightarrow> TNever | [t] \<Rightarrow> t | us \<Rightarrow> TUnion us)"
        using False nu by (simp add: union_of_def Let_def)
      show ?thesis
      proof (cases ?us)
        case Nil then show ?thesis using u by simp
      next
        case (Cons a as)
        show ?thesis
        proof (cases as)
          case Nil
          with Cons u have "a = TUndefined" by simp
          with Cons Nil eq show ?thesis by simp
        next
          case (Cons b bs)
          with \<open>?us = a # as\<close> eq have "union_of [d, TUndefined] = TUnion ?us" by simp
          moreover have "\<not> list_all (extends_object True) ?us"
            using u unfolding list_all_iff by (metis extends_object.simps(9))
          ultimately show ?thesis by simp
        qed
      qed
    qed
  qed
qed

lemma read_object_is_declared:
  "prop_read snc p \<noteq> TAny \<Longrightarrow> extends_object snc (prop_read snc p) \<Longrightarrow> prop_read snc p = ptype p"
  using undefined_in_union_not_object[of "ptype p"]
  by (cases snc) (auto simp: prop_read_def with_undefined_def)

lemma elem_object_is_declared:
  "elem_read snc e \<noteq> TAny \<Longrightarrow> extends_object snc (elem_read snc e) \<Longrightarrow> elem_read snc e = etype e"
  using undefined_in_union_not_object[of "etype e"]
  by (cases snc) (auto simp: elem_read_def with_undefined_def)

lemma size_inter_ty: "size (inter_ty x y) \<le> size x + size y + 1"
  by (simp add: inter_ty_def)

lemma find_in_set: "find P xs = Some x \<Longrightarrow> x \<in> set xs"
  by (induction xs) (auto split: if_splits)

lemma size_props_of: "p \<in> set (props_of t) \<Longrightarrow> size (ptype p) < size t"
proof (induction t arbitrary: p rule: props_of.induct)
  case (1 ps)
  then show ?case using size_ptype_less[of p ps] by simp
next
  case (2 a b)
  from 2(3) consider
      (left) pa where "pa \<in> set (props_of a)"
        "p = (case find (\<lambda>q. pname q = pname pa) (props_of b) of
                None \<Rightarrow> pa
              | Some q \<Rightarrow> Prop (pname pa) (inter_ty (ptype pa) (ptype q))
                           (popt pa \<and> popt q) (pro pa \<and> pro q))"
    | (right) "p \<in> set (props_of b)"
    by (auto simp: merge_props_def)
  then show ?case
  proof cases
    case left
    show ?thesis
    proof (cases "find (\<lambda>q. pname q = pname pa) (props_of b)")
      case None
      with left 2(1)[of pa] show ?thesis by simp
    next
      case (Some q)
      then have "q \<in> set (props_of b)" by (rule find_in_set)
      with 2(2)[of q] 2(1)[of pa] left Some size_inter_ty[of "ptype pa" "ptype q"]
      show ?thesis by simp
    qed
  next
    case right
    with 2(2)[of p] show ?thesis by simp
  qed
qed simp_all

text \<open>
  The template shared by the four Deep utilities,
  \<^verbatim>\<open>T[P] extends object ? Deep<T[P]> : T[P]\<close>, at the value \<open>v\<close> of \<open>T[P]\<close>. For \<open>any\<close> both
  arms are joined, and the join with \<open>any\<close> is \<open>any\<close>.
\<close>

definition template :: "bool \<Rightarrow> (ty \<Rightarrow> ty) \<Rightarrow> ty \<Rightarrow> ty" where
  "template snc rec v =
     (if v = TAny then TAny else if extends_object snc v then rec v else v)"

lemma template_cong [fundef_cong]:
  "snc = snc' \<Longrightarrow> v = v' \<Longrightarrow> (v' \<noteq> TAny \<Longrightarrow> extends_object snc' v' \<Longrightarrow> rec v' = rec' v')
   \<Longrightarrow> template snc rec v = template snc' rec' v'"
  by (simp add: template_def)

text \<open>
  \<^verbatim>\<open>
  export type DeepPartial<T>  = {          [P in keyof T]?:  T[P] extends object ? DeepPartial<T[P]>  : T[P] };
  export type DeepRequired<T> = {          [P in keyof T]-?: T[P] extends object ? DeepRequired<T[P]> : T[P] };
  export type DeepReadOnly<T> = { readonly [P in keyof T]:   T[P] extends object ? DeepReadOnly<T[P]> : T[P] };
  export type DeepMutable<T>  = { -readonly [P in keyof T]:  T[P] extends object ? DeepMutable<T[P]>  : T[P] };
  \<close>
  The four differ in their two modifiers only, which \<open>deep_mapped\<close> takes as \<open>rm\<close>
  (read-only) and \<open>om\<close> (optional). Each is a mapped type over \<open>keyof T\<close> of its own
  type parameter, so instantiating it follows the checker's rules for such types:
  an object shape (or an intersection, through its resolved properties) gets one
  property for each of its properties; an array or tuple is mapped element by element,
  the read-only modifier applying to the array itself; a union is mapped member by
  member; a function type has no keys and gives the empty shape, as does \<open>unknown\<close>;
  primitives, literals and \<open>never\<close> are returned as they are. (Instantiating at \<open>any\<close>
  gives an index-signature type, which these shapes do not represent: the function
  returns \<open>any\<close> there, and the template never instantiates at \<open>any\<close>.)
\<close>

function (sequential) deep_mapped :: "bool \<Rightarrow> modifier \<Rightarrow> modifier \<Rightarrow> ty \<Rightarrow> ty" where
  "deep_mapped snc rm om (TObj ps) =
     TObj (map (\<lambda>p. mk_prop snc (pname p)
                       (template snc (deep_mapped snc rm om) (prop_read snc p))
                       (apply_modifier om (popt p)) (apply_modifier rm (pro p))
                       (om = Remove \<and> popt p)) ps)"
| "deep_mapped snc rm om (TInter a b) =
     TObj (map (\<lambda>p. mk_prop snc (pname p)
                       (template snc (deep_mapped snc rm om) (prop_read snc p))
                       (apply_modifier om (popt p)) (apply_modifier rm (pro p))
                       (om = Remove \<and> popt p)) (props_of (TInter a b)))"
| "deep_mapped snc rm om (TArray ro t) =
     TArray (apply_modifier rm ro)
       (let u = template snc (deep_mapped snc rm om) t in
        if snc \<and> om = Add then with_undefined snc u
        else if snc \<and> om = Remove then remove_undefined u else u)"
| "deep_mapped snc rm om (TTuple ro es) =
     TTuple (apply_modifier rm ro)
       (map (\<lambda>e. mk_elem snc (template snc (deep_mapped snc rm om) (elem_read snc e))
                   (apply_modifier om (eopt e)) (om = Remove \<and> eopt e)) es)"
| "deep_mapped snc rm om (TUnion ms) = union_of (map (deep_mapped snc rm om) ms)"
| "deep_mapped snc rm om (TFun ps r) = TObj []"
| "deep_mapped snc rm om TUnknown = TObj []"
| "deep_mapped snc rm om t = t"
  by pat_completeness auto

termination deep_mapped
proof (relation "measure (\<lambda>(snc, rm, om, T). size T)", goal_cases)
  case 1
  show ?case by simp
next
  case (2 snc rm om ps p)
  then show ?case
    using read_object_is_declared[of snc p] size_ptype_less[of p ps] by simp
next
  case (3 snc rm om a b p)
  then show ?case
    using read_object_is_declared[of snc p] size_props_of[of p "TInter a b"] by simp
next
  case (4 snc rm om ro t)
  then show ?case by simp
next
  case (5 snc rm om ro es e)
  then show ?case
    using elem_object_is_declared[of snc e] size_etype_less[of e es] by simp
next
  case (6 snc rm om ms m)
  then show ?case
    using size_list_estimation'[of m ms "size m" size] by simp
qed



definition DeepReadOnly :: "bool \<Rightarrow> ty \<Rightarrow> ty" where
  "DeepReadOnly snc T = deep_mapped snc Add Keep T"

definition DeepMutable :: "bool \<Rightarrow> ty \<Rightarrow> ty" where
  "DeepMutable snc T = deep_mapped snc Remove Keep T"

section \<open>Assignability\<close>

text \<open>
  The conditional types of \<open>TupleUnion\<close> and \<open>Promisify\<close> test whether a constituent is
  assignable to an array type and to a function type, and the type parameter of
  \<open>Promisify\<close> is constrained by assignability to a function type. \<open>assignable sft snc s t\<close>
  is the checker's relation "\<open>s\<close> is assignable to \<open>t\<close>" on the types of this development:

  \<^item> every type is assignable to \<open>any\<close> and \<open>unknown\<close>; \<open>never\<close> is assignable to every type
    and \<open>any\<close> to every type but \<open>never\<close>; without strictNullChecks \<open>undefined\<close> is assignable
    to every type but \<open>never\<close>;
  \<^item> a union is assignable when each of its members is; a type is assignable to a union
    when it is to one member, and to an intersection when it is to both constituents;
  \<^item> an intersection is assignable when one of its constituents is, and to an object
    shape also when its resolved members are;
  \<^item> a literal type is assignable to its primitive type; primitive types, literal types,
    arrays, tuples and functions are assignable to the empty shape \<open>{}\<close>;
  \<^item> an object shape is assignable to an object shape when every property of the target
    has a namesake in the source that is required if the target's is, with an assignable
    type, or is optional and has no namesake; with strictNullChecks an optional property
    of the target also accepts \<open>undefined\<close>;
  \<^item> an array is assignable to an array with an assignable element type, a tuple to an
    array that every element can be read into, a tuple to a tuple element by element (the
    target may have further optional elements); a read-only array or tuple is not
    assignable to a mutable one;
  \<^item> a function type is assignable to a function type that has at least as many
    parameters when each parameter of the target is assignable to the parameter of the
    source in its place (or, without strictFunctionTypes, the other way round) and the
    return type is assignable: \<open>Promise<a>\<close> to \<open>Promise<b>\<close> when \<open>a\<close> is to \<open>b\<close>, a plain type
    to a \<open>Promise\<close> only when it is \<open>any\<close>, \<open>never\<close> or (without strictNullChecks)
    \<open>undefined\<close>, and a \<open>Promise\<close> to a plain type only when that is \<open>any\<close>, \<open>unknown\<close> or
    \<open>{}\<close>.

  The members that arrays, tuples and functions take from the standard library are
  outside this development, so they are assignable to no object shape but \<open>{}\<close>.
\<close>

lemma size_members: "m \<in> set (members t) \<Longrightarrow> size m \<le> size t"
proof (induction t arbitrary: m rule: members.induct)
  case (1 ms)
  then obtain n where n: "n \<in> set ms" "m \<in> set (members n)" by auto
  with 1 have "size m \<le> size n" by blast
  moreover have "size n < size (TUnion ms)"
    using n(1) size_list_estimation'[of n ms "size n" size] by simp
  ultimately show ?case by simp
qed simp_all

text \<open>
  The value of a property or element against that of its namesake: under strictNullChecks
  an optional target takes \<open>undefined\<close> as well, so the constituent \<open>undefined\<close> of the
  source is skipped. The relation \<open>rel\<close> is the assignability of the component types.
\<close>

definition value_assignable :: "bool \<Rightarrow> (ty \<Rightarrow> ty \<Rightarrow> bool) \<Rightarrow> bool \<Rightarrow> ty \<Rightarrow> ty \<Rightarrow> bool" where
  "value_assignable snc rel opt s t =
     (if snc \<and> opt then list_all (\<lambda>m. m = TUndefined \<or> rel m t) (members s) else rel s t)"

lemma value_assignable_cong [fundef_cong]:
  "snc = snc' \<Longrightarrow> opt = opt' \<Longrightarrow> s = s' \<Longrightarrow> t = t' \<Longrightarrow>
   (\<And>m. m = s' \<or> m \<in> set (members s') \<Longrightarrow> rel m t' = rel' m t') \<Longrightarrow>
   value_assignable snc rel opt s t = value_assignable snc' rel' opt' s' t'"
  by (auto simp: value_assignable_def list_all_iff)

definition props_assignable ::
  "bool \<Rightarrow> (ty \<Rightarrow> ty \<Rightarrow> bool) \<Rightarrow> ty property list \<Rightarrow> ty property list \<Rightarrow> bool" where
  "props_assignable snc rel ps qs =
     list_all (\<lambda>q.
        (popt q \<and> pname q \<notin> set (map pname ps)) \<or>
        list_ex (\<lambda>p. pname p = pname q \<and> (popt p \<longrightarrow> popt q) \<and>
                   value_assignable snc rel (popt q) (ptype p) (ptype q)) ps) qs"

lemma props_assignable_cong [fundef_cong]:
  assumes "snc = snc'" "ps = ps'" "qs = qs'"
    and r: "\<And>p q m. p \<in> set ps' \<Longrightarrow> q \<in> set qs' \<Longrightarrow>
               m = ptype p \<or> m \<in> set (members (ptype p)) \<Longrightarrow>
               rel m (ptype q) = rel' m (ptype q)"
  shows "props_assignable snc rel ps qs = props_assignable snc' rel' ps' qs'"
proof -
  have v: "value_assignable snc' rel (popt q) (ptype p) (ptype q)
             = value_assignable snc' rel' (popt q) (ptype p) (ptype q)"
    if "p \<in> set ps'" "q \<in> set qs'" for p q
    using that r[of p q] by (intro value_assignable_cong) auto
  show ?thesis
    unfolding props_assignable_def assms(1-3) list_all_iff list_ex_iff
    using v by blast
qed

definition elems_assignable ::
  "bool \<Rightarrow> (ty \<Rightarrow> ty \<Rightarrow> bool) \<Rightarrow> ty element list \<Rightarrow> ty element list \<Rightarrow> bool" where
  "elems_assignable snc rel es fs =
     (length es \<le> length fs \<and> list_all eopt (drop (length es) fs) \<and>
      list_all (\<lambda>(e, f). (eopt e \<longrightarrow> eopt f) \<and>
                  value_assignable snc rel (eopt f) (etype e) (etype f)) (zip es fs))"

lemma elems_assignable_cong [fundef_cong]:
  assumes "snc = snc'" "es = es'" "fs = fs'"
    and r: "\<And>e f m. e \<in> set es' \<Longrightarrow> f \<in> set fs' \<Longrightarrow>
               m = etype e \<or> m \<in> set (members (etype e)) \<Longrightarrow>
               rel m (etype f) = rel' m (etype f)"
  shows "elems_assignable snc rel es fs = elems_assignable snc' rel' es' fs'"
proof -
  have v: "value_assignable snc' rel (eopt f) (etype e) (etype f)
             = value_assignable snc' rel' (eopt f) (etype e) (etype f)"
    if "(e, f) \<in> set (zip es' fs')" for e f
    using that r[of e f] by (intro value_assignable_cong) (auto dest: set_zip_leftD set_zip_rightD)
  show ?thesis
    unfolding elems_assignable_def assms(1-3) list_all_iff
    using v by fastforce
qed

definition params_assignable ::
  "bool \<Rightarrow> (ty \<Rightarrow> ty \<Rightarrow> bool) \<Rightarrow> ty list \<Rightarrow> ty list \<Rightarrow> bool" where
  "params_assignable sft rel ps qs =
     (length ps \<le> length qs \<and>
      list_all (\<lambda>(p, q). rel q p \<or> (\<not> sft \<and> rel p q)) (zip ps qs))"

lemma params_assignable_cong [fundef_cong]:
  assumes "sft = sft'" "ps = ps'" "qs = qs'"
    and r1: "\<And>p q. p \<in> set ps' \<Longrightarrow> q \<in> set qs' \<Longrightarrow> rel q p = rel' q p"
    and r2: "\<And>p q. p \<in> set ps' \<Longrightarrow> q \<in> set qs' \<Longrightarrow> rel p q = rel' p q"
  shows "params_assignable sft rel ps qs = params_assignable sft' rel' ps' qs'"
proof -
  have "rel q p = rel' q p \<and> rel p q = rel' p q" if "(p, q) \<in> set (zip ps' qs')" for p q
    using that r1[of p q] r2[of p q] by (auto dest: set_zip_leftD set_zip_rightD)
  then show ?thesis
    unfolding params_assignable_def assms(1-3) list_all_iff by fastforce
qed

text \<open>A return type that is not a \<open>Promise\<close>, against a \<open>Promise\<close>.\<close>

fun plain_to_promise :: "bool \<Rightarrow> ty \<Rightarrow> bool" where
  "plain_to_promise snc TAny = True"
| "plain_to_promise snc TNever = True"
| "plain_to_promise snc TUndefined = (\<not> snc)"
| "plain_to_promise snc (TUnion ms) = list_all (plain_to_promise snc) ms"
| "plain_to_promise snc t = False"

definition ret_assignable :: "bool \<Rightarrow> (ty \<Rightarrow> ty \<Rightarrow> bool) \<Rightarrow> ty ret \<Rightarrow> ty ret \<Rightarrow> bool" where
  "ret_assignable snc rel r r' =
     (case r of
        Promise a \<Rightarrow> (case r' of Promise b \<Rightarrow> rel a b
                                 | Plain b \<Rightarrow> b = TAny \<or> b = TUnknown \<or> b = TObj [])
      | Plain a \<Rightarrow> (case r' of Promise b \<Rightarrow> plain_to_promise snc a
                               | Plain b \<Rightarrow> rel a b))"

lemma ret_assignable_cong [fundef_cong]:
  assumes "snc = snc'" "r = s" "r' = s'"
    and "\<And>a b. a \<in> set_ret s \<Longrightarrow> b \<in> set_ret s' \<Longrightarrow> rel a b = rel' a b"
  shows "ret_assignable snc rel r r' = ret_assignable snc' rel' s s'"
  using assms by (cases s; cases s') (simp_all add: ret_assignable_def)

text \<open>What an atomic type is assignable to, unions and intersections apart.\<close>

definition atom_assignable :: "bool \<Rightarrow> ty \<Rightarrow> ty \<Rightarrow> bool" where
  "atom_assignable snc s t =
     (t = TAny \<or> t = TUnknown \<or> s = t
      \<or> (s = TUndefined \<and> \<not> snc \<and> t \<noteq> TNever)
      \<or> (case s of TStrLit x \<Rightarrow> t = TString \<or> t = TObj []
                    | TNumLit n \<Rightarrow> t = TNumber \<or> t = TObj []
                    | TBoolLit b \<Rightarrow> t = TObj []
                    | TString \<Rightarrow> t = TObj []
                    | TNumber \<Rightarrow> t = TObj []
                    | _ \<Rightarrow> False))"

lemma size_ptype_le: "p \<in> set ps \<Longrightarrow> size (ptype p) \<le> size_list (size_property size) ps"
  using size_ptype_less[of p ps] by simp

lemma size_etype_le: "e \<in> set es \<Longrightarrow> size (etype e) \<le> size_list (size_element size) es"
  using size_etype_less[of e es] by simp

lemma size_param_le: "p \<in> set ps \<Longrightarrow> size p \<le> size_list size ps"
  by (induction ps) auto

lemma size_ret_le: "a \<in> set_ret r \<Longrightarrow> size a \<le> size_ret size r"
  by (cases r) auto

lemma size_merged_le:
  "p \<in> set (merge_props (props_of a) (props_of b)) \<Longrightarrow> size (ptype p) \<le> size a + size b"
  using size_props_of[of p "TInter a b"] by simp

function (sequential) assignable :: "bool \<Rightarrow> bool \<Rightarrow> ty \<Rightarrow> ty \<Rightarrow> bool" where
  "assignable sft snc TAny t = (t \<noteq> TNever)"
| "assignable sft snc TNever t = True"
| "assignable sft snc (TUnion ms) t =
     (t = TAny \<or> t = TUnknown \<or> list_all (\<lambda>m. assignable sft snc m t) ms)"
| "assignable sft snc (TObj ps) t =
     (case t of
        TAny \<Rightarrow> True
      | TUnknown \<Rightarrow> True
      | TUnion ns \<Rightarrow> list_ex (\<lambda>n. assignable sft snc (TObj ps) n) ns
      | TInter c d \<Rightarrow> assignable sft snc (TObj ps) c \<and> assignable sft snc (TObj ps) d
      | TObj qs \<Rightarrow> props_assignable snc (assignable sft snc) ps qs
      | _ \<Rightarrow> False)"
| "assignable sft snc (TInter a b) t =
     (assignable sft snc a t \<or> assignable sft snc b t \<or>
      (case t of
         TAny \<Rightarrow> True
       | TUnknown \<Rightarrow> True
       | TUnion ns \<Rightarrow> list_ex (\<lambda>n. assignable sft snc (TInter a b) n) ns
       | TInter c d \<Rightarrow> assignable sft snc (TInter a b) c \<and> assignable sft snc (TInter a b) d
       | TObj qs \<Rightarrow> props_assignable snc (assignable sft snc) (props_of (TInter a b)) qs
       | _ \<Rightarrow> False))"
| "assignable sft snc (TArray ro x) t =
     (case t of
        TAny \<Rightarrow> True
      | TUnknown \<Rightarrow> True
      | TUnion ns \<Rightarrow> list_ex (\<lambda>n. assignable sft snc (TArray ro x) n) ns
      | TInter c d \<Rightarrow> assignable sft snc (TArray ro x) c \<and> assignable sft snc (TArray ro x) d
      | TArray ro' y \<Rightarrow> (ro \<longrightarrow> ro') \<and> assignable sft snc x y
      | TObj qs \<Rightarrow> qs = []
      | _ \<Rightarrow> False)"
| "assignable sft snc (TTuple ro es) t =
     (case t of
        TAny \<Rightarrow> True
      | TUnknown \<Rightarrow> True
      | TUnion ns \<Rightarrow> list_ex (\<lambda>n. assignable sft snc (TTuple ro es) n) ns
      | TInter c d \<Rightarrow> assignable sft snc (TTuple ro es) c \<and> assignable sft snc (TTuple ro es) d
      | TArray ro' y \<Rightarrow>
          (ro \<longrightarrow> ro') \<and>
          list_all (\<lambda>e. assignable sft snc (etype e) y \<and>
                         (snc \<and> eopt e \<longrightarrow> assignable sft snc TUndefined y)) es
      | TTuple ro' fs \<Rightarrow> (ro \<longrightarrow> ro') \<and> elems_assignable snc (assignable sft snc) es fs
      | TObj qs \<Rightarrow> qs = []
      | _ \<Rightarrow> False)"
| "assignable sft snc (TFun ps r) t =
     (case t of
        TAny \<Rightarrow> True
      | TUnknown \<Rightarrow> True
      | TUnion ns \<Rightarrow> list_ex (\<lambda>n. assignable sft snc (TFun ps r) n) ns
      | TInter c d \<Rightarrow> assignable sft snc (TFun ps r) c \<and> assignable sft snc (TFun ps r) d
      | TFun qs r' \<Rightarrow> params_assignable sft (assignable sft snc) ps qs
                      \<and> ret_assignable snc (assignable sft snc) r r'
      | TObj qs \<Rightarrow> qs = []
      | _ \<Rightarrow> False)"
| "assignable sft snc s t =
     (case t of
        TUnion ns \<Rightarrow> list_ex (\<lambda>n. assignable sft snc s n) ns
      | TInter c d \<Rightarrow> assignable sft snc s c \<and> assignable sft snc s d
      | _ \<Rightarrow> atom_assignable snc s t)"
  by pat_completeness auto
termination
  apply (relation "measure (\<lambda>(sft, snc, s, t). size s + size t)")
  apply (auto simp: less_Suc_eq_le size_param_le)
  subgoal for ps qs p q
    using size_ptype_le[of p ps] size_ptype_le[of q qs] by simp
  subgoal for ps qs p q m
    using size_ptype_le[of p ps] size_ptype_le[of q qs] size_members[of m "ptype p"] by simp
  subgoal for a b qs p q
    using size_merged_le[of p a b] size_ptype_le[of q qs] by simp
  subgoal for a b qs p q m
    using size_merged_le[of p a b] size_ptype_le[of q qs] size_members[of m "ptype p"] by simp
  subgoal for es e
    using size_etype_le[of e es] by simp
  subgoal for es fs e f
    using size_etype_le[of e es] size_etype_le[of f fs] by simp
  subgoal for es fs e f m
    using size_etype_le[of e es] size_etype_le[of f fs] size_members[of m "etype e"] by simp
  subgoal for ps r qs r' p q
    using size_param_le[of p ps] size_param_le[of q qs] by simp
  subgoal for ps r qs r' p q
    using size_param_le[of p ps] size_param_le[of q qs] by simp
  subgoal for ps r qs r' a b
    using size_ret_le[of a r] size_ret_le[of b r'] by simp
  done

section \<open>The other utilities\<close>

text \<open>\<^verbatim>\<open>export type Intersect<T, U> = Pick<T, Extract<keyof T, keyof U>>;\<close>\<close>

definition Intersect :: "bool \<Rightarrow> ty \<Rightarrow> ty \<Rightarrow> ty" where
  "Intersect snc T U = Pick snc T (Extract (keyof T) (keyof U))"

text \<open>\<^verbatim>\<open>export type Except<T, U> = Pick<T, Exclude<keyof T, keyof U>>;\<close>\<close>

definition Except :: "bool \<Rightarrow> ty \<Rightarrow> ty \<Rightarrow> ty" where
  "Except snc T U = Pick snc T (Exclude (keyof T) (keyof U))"





text \<open>
  \<^verbatim>\<open>
  export type RequireAtLeastOne<T> = {
      [K in keyof T]-?: Required<Pick<T, K>> &
          Partial<Pick<T, Exclude<keyof T, K>>>;
  }[keyof T];
  \<close>
\<close>

definition RequireAtLeastOne :: "bool \<Rightarrow> ty \<Rightarrow> ty" where
  "RequireAtLeastOne snc T =
     index_access snc
       (mapped snc Keep Remove T (keyof T)
          (\<lambda>k. TInter (Required snc (Pick snc T (TStrLit k)))
                       (Partial snc (Pick snc T (Exclude (keyof T) (TStrLit k))))))
       (keyof T)"








text \<open>
  \<^verbatim>\<open>
  export type PickAllKeys<T> = {
      [P in keyof T]-?: P;
  }[keyof T];
  export type PickRequiredKeys<T> = {
      [P in keyof T]-?: {} extends Pick<T, P> ? never : P;
  }[keyof T];
  export type PickPartialKeys<T> = {
      [P in keyof T]-?: {} extends Pick<T, P> ? P : never;
  }[keyof T];
  \<close>
\<close>

definition PickAllKeys :: "bool \<Rightarrow> ty \<Rightarrow> ty" where
  "PickAllKeys snc T =
     index_access snc (mapped snc Keep Remove T (keyof T) (\<lambda>k. TStrLit k)) (keyof T)"

definition PickRequiredKeys :: "bool \<Rightarrow> ty \<Rightarrow> ty" where
  "PickRequiredKeys snc T =
     index_access snc
       (mapped snc Keep Remove T (keyof T)
          (\<lambda>k. conditional (TObj []) (empty_assignable_to (Pick snc T (TStrLit k)))
                  TNever (TStrLit k)))
       (keyof T)"

definition PickPartialKeys :: "bool \<Rightarrow> ty \<Rightarrow> ty" where
  "PickPartialKeys snc T =
     index_access snc
       (mapped snc Keep Remove T (keyof T)
          (\<lambda>k. conditional (TObj []) (empty_assignable_to (Pick snc T (TStrLit k)))
                  (TStrLit k) TNever))
       (keyof T)"

text \<open>
  \<^verbatim>\<open>
  export type Equal<T, U> = (<K>() => K extends T ? 1 : 2) extends <
      K
  >() => K extends U ? 1 : 2
      ? true
      : false;
  \<close>
  The two generic signatures are related exactly when the checker finds \<open>T\<close> and \<open>U\<close>
  identical, which is what makes the comparison invariant.
\<close>

definition Equal :: "ty \<Rightarrow> ty \<Rightarrow> ty" where
  "Equal T U = (if identical T U then TBoolLit True else TBoolLit False)"

text \<open>
  \<^verbatim>\<open>
  export type PickReadOnlyKeys<T> = {
      [P in keyof T]: Equal<
          { [Q in P]: T[Q] },
          { readonly [Q in P]: T[Q] }
      > extends true
          ? P
          : never;
  }[keyof T];
  export type PickMutableKeys<T> = {
      [P in keyof T]: Equal<
          { [Q in P]: T[Q] },
          { readonly [Q in P]: T[Q] }
      > extends true
          ? never
          : P;
  }[keyof T];
  \<close>
  The outer mapped type has no \<open>-?\<close>, so it keeps the optional attribute of each key of
  \<open>T\<close>. The key parameter \<open>P\<close> is constrained by \<open>keyof T\<close>, so the inner mapped types keep
  the attributes of \<open>T\<close> as well.
\<close>

definition is_readonly_key :: "bool \<Rightarrow> ty \<Rightarrow> string \<Rightarrow> ty" where
  "is_readonly_key snc T k =
     Equal (mapped snc Keep Keep T (TStrLit k) (\<lambda>q. index_access snc T (TStrLit q)))
           (mapped snc Add Keep T (TStrLit k) (\<lambda>q. index_access snc T (TStrLit q)))"

definition PickReadOnlyKeys :: "bool \<Rightarrow> ty \<Rightarrow> ty" where
  "PickReadOnlyKeys snc T =
     index_access snc
       (mapped snc Keep Keep T (keyof T)
          (\<lambda>k. conditional (is_readonly_key snc T k) (is_readonly_key snc T k = TBoolLit True)
                  (TStrLit k) TNever))
       (keyof T)"

definition PickMutableKeys :: "bool \<Rightarrow> ty \<Rightarrow> ty" where
  "PickMutableKeys snc T =
     index_access snc
       (mapped snc Keep Keep T (keyof T)
          (\<lambda>k. conditional (is_readonly_key snc T k) (is_readonly_key snc T k = TBoolLit True)
                  TNever (TStrLit k)))
       (keyof T)"

section \<open>Notions used in the statements\<close>





section \<open>Well-formed shapes\<close>

text \<open>
  The checker keeps every type in a normal form, and the statements about all object
  shapes are about shapes in that form: the property names of a shape are distinct; a
  union has at least two members, all different, none of them a union, \<open>never\<close>, \<open>any\<close> or
  \<open>unknown\<close>, and no literal next to its primitive type; and, with strictNullChecks, the
  declared type of an optional property or element is stored without \<open>undefined\<close>.
\<close>

fun simple :: "ty \<Rightarrow> bool" where
  "simple (TUnion ms) = False"
| "simple TNever = False"
| "simple TAny = False"
| "simple TUnknown = False"
| "simple t = True"

fun normal :: "bool \<Rightarrow> ty \<Rightarrow> bool" where
  "normal snc (TObj ps) =
     (distinct (map pname ps) \<and>
      list_all (\<lambda>p. normal snc (ptype p)
                   \<and> (snc \<and> popt p \<longrightarrow> TUndefined \<notin> set (members (ptype p)))) ps)"
| "normal snc (TArray ro t) = normal snc t"
| "normal snc (TTuple ro es) =
     list_all (\<lambda>e. normal snc (etype e)
                  \<and> (snc \<and> eopt e \<longrightarrow> TUndefined \<notin> set (members (etype e)))) es"
| "normal snc (TFun ps r) =
     (list_all (normal snc) ps \<and> (case r of Promise t \<Rightarrow> normal snc t | Plain t \<Rightarrow> normal snc t))"
| "normal snc (TUnion ms) =
     (2 \<le> length ms \<and> distinct ms \<and>
      list_all (\<lambda>m. simple m \<and> \<not> literal_absorbed ms m \<and> normal snc m) ms)"
| "normal snc (TInter a b) = (normal snc a \<and> normal snc b)"
| "normal snc t = True"

text \<open>
  A plain type has no read-only marker, no function type and no intersection at any
  depth. The structural types are what a member of a union can be when the union is
  plain and assignable to \<open>object\<close>.
\<close>

fun plain :: "ty \<Rightarrow> bool" where
  "plain (TObj ps) = list_all (\<lambda>p. \<not> pro p \<and> plain (ptype p)) ps"
| "plain (TArray ro t) = (\<not> ro \<and> plain t)"
| "plain (TTuple ro es) = (\<not> ro \<and> list_all (\<lambda>e. plain (etype e)) es)"
| "plain (TUnion ms) = list_all plain ms"
| "plain (TFun ps r) = False"
| "plain (TInter a b) = False"
| "plain t = True"

fun struct :: "ty \<Rightarrow> bool" where
  "struct (TObj ps) = True"
| "struct (TArray ro t) = True"
| "struct (TTuple ro es) = True"
| "struct TUndefined = True"
| "struct t = False"

text \<open>A property name \<open>k\<close> appears in a key union \<open>U\<close>.\<close>

definition key_member :: "string \<Rightarrow> ty \<Rightarrow> bool" where
  "key_member k U = (TStrLit k \<in> set (members U))"

section \<open>Properties\<close>

lemma identical_refl: "identical t t"
proof (induction t)
  case (TObj ps)
  have "\<And>p. p \<in> set ps \<Longrightarrow> identical (ptype p) (ptype p)"
    using TObj property.set_sel by blast
  then show ?case
    by (auto simp: list_all_iff list_ex_iff)
next
  case (TTuple ro es)
  have "\<And>e. e \<in> set es \<Longrightarrow> identical (etype e) (etype e)"
    using TTuple element.set_sel by blast
  then show ?case
    by (simp add: list_all2_same)
next
  case (TFun ps r)
  have "\<And>t. t \<in> set_ret r \<Longrightarrow> identical t t"
    using TFun by blast
  then have "case r of Promise a \<Rightarrow> identical a a | Plain a \<Rightarrow> identical a a"
    by (cases r) simp_all
  moreover have "list_all2 identical ps ps"
    using TFun by (simp add: list_all2_same)
  ultimately show ?case
    by (cases r) simp_all
next
  case (TUnion ms)
  then show ?case by (auto simp: list_all_iff list_ex_iff)
qed simp_all

subsection \<open>Unions in normal form\<close>

lemma members_simple: "m \<in> set (members t) \<Longrightarrow> members m = [m]"
  by (induction t rule: members.induct) auto

lemma simple_members: "simple m \<Longrightarrow> members m = [m]"
  by (cases m) simp_all

lemma concat_map_singleton: "(\<And>x. x \<in> set xs \<Longrightarrow> f x = [x]) \<Longrightarrow> concat (map f xs) = xs"
  by (induction xs) simp_all

lemma concat_members_idem:
  "concat (map members (concat (map members ts))) = concat (map members ts)"
  by (rule concat_map_singleton) (auto dest: members_simple)

lemma union_of_members: "union_of (concat (map members ts)) = union_of ts"
  by (simp add: union_of_def concat_members_idem)

lemma union_of_canonical:
  assumes "\<And>m. m \<in> set ms \<Longrightarrow> members m = [m]" "distinct ms"
    "TAny \<notin> set ms" "TUnknown \<notin> set ms" "\<And>m. m \<in> set ms \<Longrightarrow> \<not> literal_absorbed ms m"
  shows "union_of ms = (case ms of [] \<Rightarrow> TNever | [t] \<Rightarrow> t | _ \<Rightarrow> TUnion ms)"
proof -
  have c: "concat (map members ms) = ms"
    using assms(1) by (rule concat_map_singleton)
  have f: "filter (\<lambda>t. \<not> literal_absorbed ms t) ms = ms"
    using assms(5) by (simp add: filter_id_conv)
  show ?thesis
    using assms(2,3,4) by (simp add: union_of_def c f distinct_remdups_id split: list.splits)
qed

lemma members_canonical:
  assumes "\<And>m. m \<in> set ms \<Longrightarrow> members m = [m]"
  shows "members (case ms of [] \<Rightarrow> TNever | [t] \<Rightarrow> t | _ \<Rightarrow> TUnion ms) = ms"
proof (cases ms)
  case Nil then show ?thesis by simp
next
  case (Cons a as)
  have c: "concat (map members ms) = ms"
    using assms by (rule concat_map_singleton)
  show ?thesis
  proof (cases as)
    case Nil
    with Cons assms[of a] show ?thesis by simp
  next
    case (Cons b bs)
    with \<open>ms = a # as\<close> c show ?thesis by simp
  qed
qed

text \<open>The constituents of a union formed by \<open>union_of\<close>.\<close>

lemma members_union_of:
  assumes "TAny \<notin> set (concat (map members ts))" "TUnknown \<notin> set (concat (map members ts))"
  shows "members (union_of ts) =
           filter (\<lambda>t. \<not> literal_absorbed (remdups (concat (map members ts))) t)
             (remdups (concat (map members ts)))"
proof -
  let ?ms = "remdups (concat (map members ts))"
  let ?us = "filter (\<lambda>t. \<not> literal_absorbed ?ms t) ?ms"
  have s: "\<And>m. m \<in> set ?us \<Longrightarrow> members m = [m]"
    by (auto dest: members_simple)
  have "union_of ts = (case ?us of [] \<Rightarrow> TNever | [t] \<Rightarrow> t | _ \<Rightarrow> TUnion ?us)"
    using assms by (simp add: union_of_def Let_def split: list.splits)
  then show ?thesis using members_canonical[of ?us, OF s] by simp
qed

lemma union_of_idem: "union_of [union_of ts] = union_of ts"
proof -
  let ?cs = "concat (map members ts)"
  let ?ms = "remdups ?cs"
  let ?us = "filter (\<lambda>t. \<not> literal_absorbed ?ms t) ?ms"
  show ?thesis
  proof (cases "TAny \<in> set ?cs")
    case True
    then have "union_of ts = TAny" by (simp add: union_of_def)
    then show ?thesis by (simp add: union_of_def)
  next
    case na: False
    show ?thesis
    proof (cases "TUnknown \<in> set ?cs")
      case True
      then have "union_of ts = TUnknown" using na by (simp add: union_of_def)
      then show ?thesis by (simp add: union_of_def)
    next
      case nu: False
      have m: "members (union_of ts) = ?us" using members_union_of[OF na nu] .
      have s: "\<And>m. m \<in> set ?us \<Longrightarrow> members m = [m]"
        by (auto dest: members_simple)
      have ab: "\<And>m. m \<in> set ?us \<Longrightarrow> \<not> literal_absorbed ?us m"
        by (auto simp: literal_absorbed_def split: ty.splits)
      have "union_of [union_of ts] = union_of (members (union_of ts))"
        using union_of_members[of "[union_of ts]"] by simp
      also have "\<dots> = union_of ?us" by (simp only: m)
      also have "\<dots> = (case ?us of [] \<Rightarrow> TNever | [t] \<Rightarrow> t | _ \<Rightarrow> TUnion ?us)"
        using na nu by (intro union_of_canonical s ab) auto
      also have "\<dots> = union_of ts"
        using na nu by (simp add: union_of_def Let_def split: list.splits)
      finally show ?thesis .
    qed
  qed
qed

lemma normal_union_self: "normal snc t \<Longrightarrow> union_of [t] = t"
proof (cases t)
  case (TUnion ms)
  assume n: "normal snc t"
  have s: "\<And>m. m \<in> set ms \<Longrightarrow> members m = [m]"
    using n TUnion by (auto simp: list_all_iff simple_members)
  have c: "concat (map members ms) = ms" using s by (rule concat_map_singleton)
  have "union_of [t] = union_of ms"
    using union_of_members[of "[t]"] TUnion c by simp
  also have "\<dots> = (case ms of [] \<Rightarrow> TNever | [t] \<Rightarrow> t | _ \<Rightarrow> TUnion ms)"
    using n TUnion by (intro union_of_canonical s) (auto simp: list_all_iff)
  also have "\<dots> = TUnion ms"
    using n TUnion by (cases ms; cases "tl ms") auto
  finally show ?thesis using TUnion by simp
qed (simp_all add: union_of_def literal_absorbed_def)

subsection \<open>Assignability\<close>

lemma assignable_top:
  "assignable sft snc s TAny" "assignable sft snc s TUnknown"
  by (cases s; simp add: atom_assignable_def)+

text \<open>The check \<open>{} extends X\<close> of the key utilities is this relation at the empty shape.\<close>

lemma empty_shape_assignable: "assignable sft snc (TObj []) t = empty_assignable_to t"
  by (induction t rule: empty_assignable_to.induct)
     (simp_all add: props_assignable_def list_all_iff list_ex_iff)

lemma assignable_union_intro:
  "n \<in> set ns \<Longrightarrow> assignable sft snc s n \<Longrightarrow> assignable sft snc s (TUnion ns)"
proof (induction s)
  case (TUnion ms)
  have "assignable sft snc m (TUnion ns)" if "m \<in> set ms" for m
  proof -
    have "assignable sft snc m n"
      using TUnion.prems(2) that assignable_top[of sft snc m]
      by (auto simp: list_all_iff)
    then show ?thesis using TUnion.IH[OF that TUnion.prems(1)] by simp
  qed
  then show ?case by (simp add: list_all_iff)
qed (auto simp: list_ex_iff)

lemma zip_same: "(a, b) \<in> set (zip xs xs) \<Longrightarrow> a \<in> set xs \<and> a = b"
  by (induction xs) auto

lemma assignable_refl_members:
  "assignable sft snc t t \<and> (\<forall>m \<in> set (members t). assignable sft snc m t)"
proof (induction t rule: measure_induct_rule[of size])
  case (less t)
  have val: "value_assignable snc (assignable sft snc) opt u u" if "size u < size t" for u opt
    using less[OF that] by (auto simp: value_assignable_def list_all_iff)
  have refl: "assignable sft snc t t"
  proof (cases t)
    case (TUnion ms)
    have "assignable sft snc m (TUnion ms)" if "m \<in> set ms" for m
    proof -
      have "size m < size t" using that size_param_le[of m ms] TUnion by simp
      then have "assignable sft snc m m" using less by blast
      then show ?thesis using assignable_union_intro[OF that] by blast
    qed
    then show ?thesis using TUnion by (simp add: list_all_iff)
  next
    case (TObj ps)
    have "value_assignable snc (assignable sft snc) (popt q) (ptype q) (ptype q)"
      if "q \<in> set ps" for q
      using val[of "ptype q"] size_ptype_le[OF that] TObj by simp
    then have "props_assignable snc (assignable sft snc) ps ps"
      unfolding props_assignable_def list_all_iff list_ex_iff by blast
    then show ?thesis using TObj by simp
  next
    case (TInter a b)
    have "assignable sft snc a a" "assignable sft snc b b"
      using less[of a] less[of b] TInter by simp_all
    then show ?thesis using TInter by simp
  next
    case (TArray ro x)
    then show ?thesis using less[of x] by simp
  next
    case (TTuple ro es)
    have "value_assignable snc (assignable sft snc) (eopt e) (etype e) (etype e)"
      if "e \<in> set es" for e
      using val[of "etype e"] size_etype_le[OF that] TTuple by simp
    then have "elems_assignable snc (assignable sft snc) es es"
      unfolding elems_assignable_def list_all_iff by (auto dest!: zip_same)
    then show ?thesis using TTuple by simp
  next
    case (TFun ps r)
    have p: "assignable sft snc p p" if "p \<in> set ps" for p
      using less[of p] size_param_le[OF that] TFun by simp
    have "params_assignable sft (assignable sft snc) ps ps"
      unfolding params_assignable_def list_all_iff using p by (auto dest!: zip_same)
    moreover have "ret_assignable snc (assignable sft snc) r r"
      using less TFun by (cases r) (simp_all add: ret_assignable_def)
    ultimately show ?thesis using TFun by simp
  qed (simp_all add: atom_assignable_def)
  moreover have "\<forall>m \<in> set (members t). assignable sft snc m t"
  proof (cases t)
    case (TUnion ms)
    have "assignable sft snc m (TUnion ms)" if "x \<in> set ms" "m \<in> set (members x)" for m x
    proof -
      have "size x < size t" using that size_param_le[of x ms] TUnion by simp
      then have "assignable sft snc m x" using less that by blast
      then show ?thesis using assignable_union_intro[OF that(1)] by blast
    qed
    then show ?thesis using TUnion by auto
  qed (use refl in simp_all)
  ultimately show ?case by blast
qed


lemma assignable_member: "m \<in> set (members t) \<Longrightarrow> assignable sft snc m t"
  using assignable_refl_members by blast










subsection \<open>The claims\<close>

text \<open>
  C4. \<open>Equal<T,T>\<close> is the literal type \<open>true\<close> for every type \<open>T\<close>, and
  \<open>Equal<{a: string}, {a?: string}>\<close> is \<open>false\<close>.
\<close>

theorem Equal_reflexive_and_sees_optional:
  "Equal T T = TBoolLit True
   \<and> Equal (TObj [Prop ''a'' TString False False]) (TObj [Prop ''a'' TString True False])
       = TBoolLit False"
  by (simp add: Equal_def identical_refl)

lemma RequireAtLeastOne_example_strict:
  "RequireAtLeastOne True
     (TObj [Prop ''name'' TString False False, Prop ''age'' TNumber False False])
   = TUnion [TInter (TObj [Prop ''name'' TString False False])
                    (TObj [Prop ''age'' TNumber True False]),
             TInter (TObj [Prop ''age'' TNumber False False])
                    (TObj [Prop ''name'' TString True False])]"
  by code_simp

lemma RequireAtLeastOne_example_loose:
  "RequireAtLeastOne False
     (TObj [Prop ''name'' TString False False, Prop ''age'' TNumber False False])
   = TUnion [TInter (TObj [Prop ''name'' TString False False])
                    (TObj [Prop ''age'' TNumber True False]),
             TInter (TObj [Prop ''age'' TNumber False False])
                    (TObj [Prop ''name'' TString True False])]"
  by code_simp

lemma RequireAtLeastOne_example:
  "RequireAtLeastOne snc
     (TObj [Prop ''name'' TString False False, Prop ''age'' TNumber False False])
   = TUnion [TInter (TObj [Prop ''name'' TString False False])
                    (TObj [Prop ''age'' TNumber True False]),
             TInter (TObj [Prop ''age'' TNumber False False])
                    (TObj [Prop ''name'' TString True False])]"
  using RequireAtLeastOne_example_strict RequireAtLeastOne_example_loose
  by (cases snc) simp_all

lemma RequireAtLeastOne_example_assignable:
  "assignable sft snc
     (TUnion [TInter (TObj [Prop ''name'' TString False False])
                     (TObj [Prop ''age'' TNumber True False]),
              TInter (TObj [Prop ''age'' TNumber False False])
                     (TObj [Prop ''name'' TString True False])])
     (TUnion [TObj [Prop ''name'' TString True False, Prop ''age'' TNumber False False],
              TObj [Prop ''name'' TString False False, Prop ''age'' TNumber True False]])
   \<and> assignable sft snc
     (TUnion [TObj [Prop ''name'' TString True False, Prop ''age'' TNumber False False],
              TObj [Prop ''name'' TString False False, Prop ''age'' TNumber True False]])
     (TUnion [TInter (TObj [Prop ''name'' TString False False])
                     (TObj [Prop ''age'' TNumber True False]),
              TInter (TObj [Prop ''age'' TNumber False False])
                     (TObj [Prop ''name'' TString True False])])"
  by (cases sft; cases snc; simp only:; code_simp)

text \<open>
  C8, as amended. For \<open>A = {name: string; age: number}\<close>, \<open>RequireAtLeastOne<A>\<close> is the
  union of the two intersections \<open>{name: string} & {age?: number}\<close> and
  \<open>{age: number} & {name?: string}\<close>. The resolved members of each are those of one of the
  flattened shapes \<open>{name: string; age?: number}\<close> and \<open>{name?: string; age: number}\<close>, and
  the result and the union of the two flattened shapes are assignable to each other.
\<close>

theorem RequireAtLeastOne_name_age_members:
  "RequireAtLeastOne snc
     (TObj [Prop ''name'' TString False False, Prop ''age'' TNumber False False])
   = TUnion [TInter (TObj [Prop ''name'' TString False False])
                    (TObj [Prop ''age'' TNumber True False]),
             TInter (TObj [Prop ''age'' TNumber False False])
                    (TObj [Prop ''name'' TString True False])]
   \<and> map props_of (members (RequireAtLeastOne snc
         (TObj [Prop ''name'' TString False False, Prop ''age'' TNumber False False])))
       = [[Prop ''name'' TString False False, Prop ''age'' TNumber True False],
          [Prop ''age'' TNumber False False, Prop ''name'' TString True False]]
   \<and> assignable sft snc
       (RequireAtLeastOne snc
          (TObj [Prop ''name'' TString False False, Prop ''age'' TNumber False False]))
       (TUnion [TObj [Prop ''name'' TString True False, Prop ''age'' TNumber False False],
                TObj [Prop ''name'' TString False False, Prop ''age'' TNumber True False]])
   \<and> assignable sft snc
       (TUnion [TObj [Prop ''name'' TString True False, Prop ''age'' TNumber False False],
                TObj [Prop ''name'' TString False False, Prop ''age'' TNumber True False]])
       (RequireAtLeastOne snc
          (TObj [Prop ''name'' TString False False, Prop ''age'' TNumber False False]))"
proof -
  have "map props_of (members
          (TUnion [TInter (TObj [Prop ''name'' TString False False])
                          (TObj [Prop ''age'' TNumber True False]),
                   TInter (TObj [Prop ''age'' TNumber False False])
                          (TObj [Prop ''name'' TString True False])]))
       = [[Prop ''name'' TString False False, Prop ''age'' TNumber True False],
          [Prop ''age'' TNumber False False, Prop ''name'' TString True False]]"
    by code_simp
  then show ?thesis
    unfolding RequireAtLeastOne_example
    using RequireAtLeastOne_example_assignable[of sft snc] by blast
qed

text \<open>
  C8 as stated fails: under the identity relation that \<open>Equal\<close> decides, an intersection
  is not identical to the flattened shape with the same members, so \<open>RequireAtLeastOne<A>\<close>
  is not identical to \<open>{name?: string; age: number} | {name: string; age?: number}\<close>.
\<close>

theorem RequireAtLeastOne_not_identical:
  "\<not> identical
       (RequireAtLeastOne True
          (TObj [Prop ''name'' TString False False, Prop ''age'' TNumber False False]))
       (TUnion [TObj [Prop ''name'' TString True False, Prop ''age'' TNumber False False],
                TObj [Prop ''name'' TString False False, Prop ''age'' TNumber True False]])
   \<and> Equal
       (RequireAtLeastOne True
          (TObj [Prop ''name'' TString False False, Prop ''age'' TNumber False False]))
       (TUnion [TObj [Prop ''name'' TString True False, Prop ''age'' TNumber False False],
                TObj [Prop ''name'' TString False False, Prop ''age'' TNumber True False]])
       = TBoolLit False
   \<and> Equal
       (RequireAtLeastOne False
          (TObj [Prop ''name'' TString False False, Prop ''age'' TNumber False False]))
       (TUnion [TObj [Prop ''name'' TString True False, Prop ''age'' TNumber False False],
                TObj [Prop ''name'' TString False False, Prop ''age'' TNumber True False]])
       = TBoolLit False"
  by code_simp






















lemma absorbed_append_undefined:
  "literal_absorbed (ms @ [TUndefined]) m = literal_absorbed ms m"
  by (simp add: literal_absorbed_def split: ty.splits)

lemma normal_strip:
  assumes n: "normal snc d" and u: "TUndefined \<notin> set (members d)"
  shows "remove_undefined (union_of [d, TUndefined]) = d"
proof -
  let ?md = "members d"
  have s: "\<And>m. m \<in> set ?md \<Longrightarrow> members m = [m]" by (rule members_simple)
  show ?thesis
  proof (cases "d = TAny \<or> d = TUnknown")
    case True
    then show ?thesis by (auto simp: remove_undefined_def union_of_def literal_absorbed_def)
  next
    case False
    have d: "distinct ?md \<and> TAny \<notin> set ?md \<and> TUnknown \<notin> set ?md
             \<and> (\<forall>m \<in> set ?md. \<not> literal_absorbed ?md m)
             \<and> union_of ?md = d"
    proof (cases d)
      case (TUnion ms)
      have sm: "\<And>m. m \<in> set ms \<Longrightarrow> members m = [m]"
        using n TUnion by (auto simp: list_all_iff simple_members)
      have c: "?md = ms" using TUnion concat_map_singleton[of ms members, OF sm] by simp
      have "union_of ?md = d"
        using union_of_members[of "[d]"] normal_union_self[OF n] by simp
      moreover have "TAny \<notin> set ms" "TUnknown \<notin> set ms"
        using n TUnion by (auto simp: list_all_iff)
      ultimately show ?thesis using n TUnion c by (auto simp: list_all_iff)
    next
      case TNever
      then show ?thesis by (simp add: union_of_def)
    qed (use False in \<open>simp_all add: union_of_def literal_absorbed_def\<close>)
    let ?ms = "?md @ [TUndefined]"
    have cm: "concat (map members [d, TUndefined]) = ?ms" by simp
    have mu: "members (union_of [d, TUndefined]) = ?ms"
    proof -
      have "members (union_of [d, TUndefined]) =
              filter (\<lambda>t. \<not> literal_absorbed (remdups ?ms) t) (remdups ?ms)"
        using members_union_of[of "[d, TUndefined]"] d by simp
      moreover have "remdups ?ms = ?ms" using d u by (simp add: distinct_remdups_id)
      moreover have "filter (\<lambda>t. \<not> literal_absorbed ?ms t) ?ms = ?ms"
        using d by (simp add: filter_id_conv absorbed_append_undefined)
           (simp add: literal_absorbed_def)
      ultimately show ?thesis by simp
    qed
    have "filter (\<lambda>m. m \<noteq> TUndefined) ?ms = ?md"
      using u by (auto simp: filter_id_conv)
    then show ?thesis
      using d mu by (simp add: remove_undefined_def)
  qed
qed

text \<open>Storing what was read from a property gives back its declared type.\<close>

lemma store_read:
  assumes "normal snc (ptype p)" "snc \<and> popt p \<longrightarrow> TUndefined \<notin> set (members (ptype p))"
  shows "mk_prop snc (pname p) (union_of [prop_read snc p]) (popt p) (pro p) False = p"
proof (cases "snc \<and> popt p")
  case True
  then have "prop_read snc p = union_of [ptype p, TUndefined]"
    by (simp add: prop_read_def with_undefined_def)
  then show ?thesis
    using True assms normal_strip[of snc "ptype p"]
    by (cases p) (simp add: mk_prop_def union_of_idem)
next
  case False
  then have "prop_read snc p = ptype p"
    by (auto simp: prop_read_def with_undefined_def)
  then show ?thesis
    using False assms normal_union_self[of snc "ptype p"]
    by (cases p) (auto simp: mk_prop_def)
qed

lemma find_distinct_name:
  "distinct (map pname ps) \<Longrightarrow> p \<in> set ps \<Longrightarrow> find (\<lambda>q. pname q = pname p) ps = Some p"
  by (induction ps) (auto simp: image_iff)

lemma keys_of_shape:
  assumes "distinct (map pname ps)"
  shows "members (keyof (TObj ps)) = map (\<lambda>p. TStrLit (pname p)) ps"
    and "keys_in (keyof (TObj ps)) = map pname ps"
proof -
  let ?ks = "map (\<lambda>p. TStrLit (pname p)) ps"
  have dk: "distinct ?ks"
    using assms by (simp add: distinct_map inj_on_def comp_def)
  have cm: "concat (map members ?ks) = ?ks"
    by (rule concat_map_singleton) auto
  have "members (keyof (TObj ps)) =
          filter (\<lambda>t. \<not> literal_absorbed (remdups ?ks) t) (remdups ?ks)"
    unfolding keyof_def using members_union_of[of ?ks] cm by auto
  also have "\<dots> = ?ks"
    using dk by (auto simp: distinct_remdups_id filter_id_conv literal_absorbed_def)
  finally show m: "members (keyof (TObj ps)) = ?ks" .
  show "keys_in (keyof (TObj ps)) = map pname ps"
    unfolding keys_in_def m by (induction ps) simp_all
qed

lemma Pick_all_keys:
  assumes "normal snc (TObj ps)"
  shows "Pick snc (TObj ps) (keyof (TObj ps)) = TObj ps"
proof -
  have d: "distinct (map pname ps)" using assms by simp
  have each: "\<And>p. p \<in> set ps \<Longrightarrow>
      (let was_opt = (case prop_named (TObj ps) (pname p) of None \<Rightarrow> False | Some p \<Rightarrow> popt p);
           was_ro = (case prop_named (TObj ps) (pname p) of None \<Rightarrow> False | Some p \<Rightarrow> pro p)
       in mk_prop snc (pname p) (index_access snc (TObj ps) (TStrLit (pname p)))
            (apply_modifier Keep was_opt) (apply_modifier Keep was_ro) (Keep = Remove \<and> was_opt)) = p"
  proof -
    fix p assume p: "p \<in> set ps"
    have f: "prop_named (TObj ps) (pname p) = Some p"
      using find_distinct_name[OF d p] by (simp add: prop_named_def)
    have i: "index_access snc (TObj ps) (TStrLit (pname p)) = union_of [prop_read snc p]"
      by (simp add: index_access_def keys_in_def f)
    have "normal snc (ptype p)" "snc \<and> popt p \<longrightarrow> TUndefined \<notin> set (members (ptype p))"
      using assms p by (auto simp: list_all_iff)
    from store_read[OF this] show "?thesis p"
      by (simp add: f i apply_modifier_def)
  qed
  show ?thesis
    unfolding Pick_def mapped_def keys_of_shape(2)[OF d]
    using each by (simp add: map_idI comp_def)
qed

lemma Extract_self: "Extract K K = union_of [K]"
proof -
  have "map (\<lambda>m. if key_extends m K then m else TNever) (members K) = members K"
    by (rule map_idI) (simp add: key_extends_def)
  then show ?thesis
    using union_of_members[of "[K]"] by (simp add: Extract_def)
qed

lemma union_of_nevers: "union_of (map (\<lambda>m. TNever) ms) = TNever"
proof -
  have "concat (map members (map (\<lambda>m. TNever) ms)) = []"
    by (induction ms) simp_all
  then show ?thesis unfolding union_of_def by (simp only: Let_def) simp
qed

lemma Exclude_self: "Exclude K K = TNever"
proof -
  have "map (\<lambda>m. if key_extends m K then TNever else m) (members K) = map (\<lambda>m. TNever) (members K)"
    by (rule map_cong) (simp_all add: key_extends_def)
  then show ?thesis by (simp only: Exclude_def union_of_nevers)
qed

lemma keyof_idem: "union_of [keyof T] = keyof T"
  by (simp add: keyof_def union_of_idem)

text \<open>
  C5. For every object shape \<open>T\<close>, \<open>Intersect<T,T>\<close> is identical to \<open>T\<close> (it is the same
  shape), and \<open>Except<T,T>\<close> is the empty shape.
\<close>

theorem Intersect_self_Except_self:
  assumes "normal snc (TObj ps)"
  shows "identical (Intersect snc (TObj ps) (TObj ps)) (TObj ps)
         \<and> Intersect snc (TObj ps) (TObj ps) = TObj ps
         \<and> Except snc (TObj ps) (TObj ps) = TObj []"
proof -
  have i: "Intersect snc (TObj ps) (TObj ps) = TObj ps"
    using Pick_all_keys[OF assms] by (simp add: Intersect_def Extract_self keyof_idem)
  have e: "Except snc (TObj ps) (TObj ps) = TObj []"
    by (simp add: Except_def Exclude_self Pick_def mapped_def keys_in_def)
  show ?thesis using i e identical_refl by simp
qed

theorem Intersect_self_Except_self_witness:
  "normal True (TObj [Prop ''name'' TString False False, Prop ''age'' TNumber True False])
   \<and> identical
        (Intersect True
           (TObj [Prop ''name'' TString False False, Prop ''age'' TNumber True False])
           (TObj [Prop ''name'' TString False False, Prop ''age'' TNumber True False]))
        (TObj [Prop ''name'' TString False False, Prop ''age'' TNumber True False])
   \<and> Except True
        (TObj [Prop ''name'' TString False False, Prop ''age'' TNumber True False])
        (TObj [Prop ''name'' TString False False, Prop ''age'' TNumber True False]) = TObj []"
proof -
  have h: "normal True (TObj [Prop ''name'' TString False False, Prop ''age'' TNumber True False])"
    by simp
  from Intersect_self_Except_self[OF h] h show ?thesis by blast
qed

lemma find_map_name:
  assumes "\<And>k. pname (g k) = k" "k \<in> set ks"
  shows "find (\<lambda>p. pname p = k) (map g ks) = Some (g k)"
  using assms(2) by (induction ks) (auto simp: assms(1))

lemma concat_map_single: "concat (map (\<lambda>k. [f k]) ks) = map f ks"
  by (induction ks) simp_all

lemma index_mapped:
  assumes "keys_in K = ks"
  shows "index_access snc (mapped snc rm om M K tmpl) K =
           union_of (map (\<lambda>k. prop_read snc
             (mk_prop snc k (tmpl k)
                (apply_modifier om (case prop_named M k of None \<Rightarrow> False | Some p \<Rightarrow> popt p))
                (apply_modifier rm (case prop_named M k of None \<Rightarrow> False | Some p \<Rightarrow> pro p))
                (om = Remove \<and> (case prop_named M k of None \<Rightarrow> False | Some p \<Rightarrow> popt p)))) ks)"
proof -
  let ?g = "\<lambda>k. mk_prop snc k (tmpl k)
                (apply_modifier om (case prop_named M k of None \<Rightarrow> False | Some p \<Rightarrow> popt p))
                (apply_modifier rm (case prop_named M k of None \<Rightarrow> False | Some p \<Rightarrow> pro p))
                (om = Remove \<and> (case prop_named M k of None \<Rightarrow> False | Some p \<Rightarrow> popt p))"
  have n: "\<And>k. pname (?g k) = k" by (simp add: mk_prop_def)
  have m: "mapped snc rm om M K tmpl = TObj (map ?g ks)"
    by (simp add: mapped_def assms Let_def)
  have "\<And>k. k \<in> set ks \<Longrightarrow>
          (case prop_named (TObj (map ?g ks)) k of None \<Rightarrow> [] | Some p \<Rightarrow> [prop_read snc p])
            = [prop_read snc (?g k)]"
    using find_map_name[of ?g _ ks, OF n] by (simp add: prop_named_def)
  then have "map (\<lambda>k. case prop_named (TObj (map ?g ks)) k of None \<Rightarrow> [] | Some p \<Rightarrow> [prop_read snc p]) ks
               = map (\<lambda>k. [prop_read snc (?g k)]) ks"
    by (intro map_cong) simp_all
  then have "concat (map (\<lambda>k. case prop_named (TObj (map ?g ks)) k of None \<Rightarrow> [] | Some p \<Rightarrow> [prop_read snc p]) ks)
               = map (\<lambda>k. prop_read snc (?g k)) ks"
    by (simp only: concat_map_single)
  then show ?thesis
    unfolding m index_access_def assms by (simp only:)
qed

lemma key_or_never_members:
  assumes "\<And>t. t \<in> set ts \<Longrightarrow> t = TNever \<or> (\<exists>k. t = TStrLit k)"
  shows "set (members (union_of ts)) = set ts - {TNever}"
proof -
  have mt: "\<And>t. t \<in> set ts \<Longrightarrow> set (members t) = {t} - {TNever}"
    using assms by fastforce
  have "set (concat (map members ts)) = (\<Union>t \<in> set ts. set (members t))" by simp
  also have "\<dots> = (\<Union>t \<in> set ts. {t} - {TNever})" using mt by simp
  also have "\<dots> = set ts - {TNever}" by blast
  finally have c: "set (concat (map members ts)) = set ts - {TNever}" .
  have "members (union_of ts) =
          filter (\<lambda>t. \<not> literal_absorbed (remdups (concat (map members ts))) t)
             (remdups (concat (map members ts)))"
    using c assms by (intro members_union_of) auto
  moreover have "\<And>t. t \<in> set ts - {TNever} \<Longrightarrow> \<not> literal_absorbed (remdups (concat (map members ts))) t"
    using c assms by (auto simp: literal_absorbed_def split: ty.splits)
  ultimately show ?thesis using c by auto
qed

lemma remove_undefined_key: "remove_undefined (TStrLit k) = TStrLit k"
  by (simp add: remove_undefined_def union_of_def literal_absorbed_def)

lemma remove_undefined_never: "remove_undefined TNever = TNever"
  by (simp add: remove_undefined_def union_of_def)

lemma Pick_single:
  assumes "distinct (map pname ps)" "p \<in> set ps"
  shows "\<exists>t. Pick snc (TObj ps) (TStrLit (pname p)) = TObj [Prop (pname p) t (popt p) (pro p)]"
proof -
  have f: "prop_named (TObj ps) (pname p) = Some p"
    using find_distinct_name[OF assms] by (simp add: prop_named_def)
  show ?thesis
    by (simp add: Pick_def mapped_def keys_in_def f apply_modifier_def mk_prop_def Let_def)
qed

lemma required_keys_members:
  assumes d: "distinct (map pname ps)"
  shows "set (members (PickRequiredKeys snc (TObj ps))) = {TStrLit (pname p) | p. p \<in> set ps \<and> \<not> popt p}"
    and "set (members (PickPartialKeys snc (TObj ps))) = {TStrLit (pname p) | p. p \<in> set ps \<and> popt p}"
proof -
  let ?T = "TObj ps"
  let ?c = "\<lambda>k. empty_assignable_to (Pick snc ?T (TStrLit k))"
  have ca: "\<And>p. p \<in> set ps \<Longrightarrow> ?c (pname p) = popt p"
  proof -
    fix p assume "p \<in> set ps"
    from Pick_single[OF d this, of snc] obtain t where
      "Pick snc (TObj ps) (TStrLit (pname p)) = TObj [Prop (pname p) t (popt p) (pro p)]" ..
    then show "?c (pname p) = popt p" by simp
  qed
  have k: "keys_in (keyof ?T) = map pname ps" by (rule keys_of_shape(2)[OF d])
  have rd: "\<And>t k b r s. t = TNever \<or> t = TStrLit k \<Longrightarrow>
              prop_read snc (mk_prop snc k t (apply_modifier Remove b) r s) = t"
    by (auto simp: prop_read_def mk_prop_def apply_modifier_def remove_undefined_key remove_undefined_never)
  have r: "PickRequiredKeys snc ?T =
             union_of (map (\<lambda>k. if ?c k then TNever else TStrLit k) (map pname ps))"
    unfolding PickRequiredKeys_def index_mapped[OF k]
    by (simp add: conditional_def rd comp_def)
  have q: "PickPartialKeys snc ?T =
             union_of (map (\<lambda>k. if ?c k then TStrLit k else TNever) (map pname ps))"
    unfolding PickPartialKeys_def index_mapped[OF k]
    by (simp add: conditional_def rd comp_def)
  show "set (members (PickRequiredKeys snc ?T)) = {TStrLit (pname p) | p. p \<in> set ps \<and> \<not> popt p}"
    unfolding r using ca by (subst key_or_never_members) (auto simp: image_iff)
  show "set (members (PickPartialKeys snc ?T)) = {TStrLit (pname p) | p. p \<in> set ps \<and> popt p}"
    unfolding q using ca by (subst key_or_never_members) (auto simp: image_iff)
qed

text \<open>
  C6. For every object shape \<open>T\<close> and key \<open>K\<close> of \<open>T\<close>: \<open>K\<close> appears in \<open>PickRequiredKeys<T>\<close>
  exactly when \<open>{}\<close> is not assignable to \<open>Pick<T,K>\<close>, and in \<open>PickPartialKeys<T>\<close> exactly
  when it is. (That assignability holds exactly when the key is optional.)
\<close>

theorem required_by_assignability:
  assumes "distinct (map pname ps)" "p \<in> set ps"
  shows "(key_member (pname p) (PickRequiredKeys snc (TObj ps))
            \<longleftrightarrow> \<not> empty_assignable_to (Pick snc (TObj ps) (TStrLit (pname p))))
       \<and> (key_member (pname p) (PickPartialKeys snc (TObj ps))
            \<longleftrightarrow> empty_assignable_to (Pick snc (TObj ps) (TStrLit (pname p))))
       \<and> (empty_assignable_to (Pick snc (TObj ps) (TStrLit (pname p))) \<longleftrightarrow> popt p)"
proof -
  have ca: "empty_assignable_to (Pick snc (TObj ps) (TStrLit (pname p))) = popt p"
  proof -
    from Pick_single[OF assms, of snc] obtain t where
      "Pick snc (TObj ps) (TStrLit (pname p)) = TObj [Prop (pname p) t (popt p) (pro p)]" ..
    then show ?thesis by simp
  qed
  have u: "\<And>q. q \<in> set ps \<Longrightarrow> pname q = pname p \<Longrightarrow> q = p"
    using assms by (simp add: distinct_map inj_on_def)
  have in_keys: "(TStrLit (pname p) \<in> {TStrLit (pname q) | q. q \<in> set ps \<and> P q}) = P p" for P
  proof
    assume "TStrLit (pname p) \<in> {TStrLit (pname q) | q. q \<in> set ps \<and> P q}"
    then obtain q where q: "pname q = pname p" "q \<in> set ps" "P q" by auto
    with u[of q] show "P p" by simp
  next
    assume "P p"
    with assms(2) show "TStrLit (pname p) \<in> {TStrLit (pname q) | q. q \<in> set ps \<and> P q}"
      by (intro CollectI exI[of _ p]) simp
  qed
  have r: "key_member (pname p) (PickRequiredKeys snc (TObj ps)) = (\<not> popt p)"
    unfolding key_member_def required_keys_members(1)[OF assms(1)] by (rule in_keys)
  have q: "key_member (pname p) (PickPartialKeys snc (TObj ps)) = popt p"
    unfolding key_member_def required_keys_members(2)[OF assms(1)] by (rule in_keys)
  show ?thesis using r q ca by simp
qed

theorem required_by_assignability_witness:
  "key_member ''age'' (PickPartialKeys True
      (TObj [Prop ''name'' TString False False, Prop ''age'' TNumber True False]))
   \<and> \<not> key_member ''age'' (PickRequiredKeys True
      (TObj [Prop ''name'' TString False False, Prop ''age'' TNumber True False]))
   \<and> key_member ''name'' (PickRequiredKeys True
      (TObj [Prop ''name'' TString False False, Prop ''age'' TNumber True False]))
   \<and> empty_assignable_to (Pick True
      (TObj [Prop ''name'' TString False False, Prop ''age'' TNumber True False])
      (TStrLit ''age''))"
proof -
  let ?ps = "[Prop ''name'' TString False False, Prop ''age'' TNumber True False]"
  have d: "distinct (map pname ?ps)" by simp
  have a: "Prop ''age'' TNumber True False \<in> set ?ps" by simp
  have n: "Prop ''name'' TString False False \<in> set ?ps" by simp
  from required_by_assignability[OF d a, of True] required_by_assignability[OF d n, of True]
  show ?thesis by simp
qed

subsection \<open>ReadOnlyByKeys and MutableByKeys\<close>







section \<open>Read-only and mutable keys\<close>

lemma members_union_of_set:
  assumes "TAny \<notin> set (concat (map members ts))" "TUnknown \<notin> set (concat (map members ts))"
    "TString \<notin> set (concat (map members ts))" "TNumber \<notin> set (concat (map members ts))"
  shows "set (members (union_of ts)) = set (concat (map members ts))"
proof -
  have "\<And>t. \<not> literal_absorbed (remdups (concat (map members ts))) t"
    using assms(3,4) by (simp add: literal_absorbed_def split: ty.splits)
  then show ?thesis
    using members_union_of[OF assms(1,2)] by simp
qed

lemma members_with_undefined:
  assumes "t = TNever \<or> t = TStrLit k"
  shows "set (members (union_of [t, TUndefined])) = set (members t) \<union> {TUndefined}"
  using assms members_union_of_set[of "[t, TUndefined]"] by auto

lemma single_projection_identical:
  assumes "distinct (map pname ps)" "p \<in> set ps"
  shows "is_readonly_key snc (TObj ps) (pname p) = TBoolLit (pro p)"
proof -
  have f: "prop_named (TObj ps) (pname p) = Some p"
    using find_distinct_name[OF assms] by (simp add: prop_named_def)
  show ?thesis
    by (simp add: is_readonly_key_def Equal_def mapped_def keys_in_def f apply_modifier_def
        mk_prop_def Let_def identical_refl)
qed

text \<open>What one key contributes to \<open>PickReadOnlyKeys\<close> (\<open>want = True\<close>) or \<open>PickMutableKeys\<close>.\<close>

lemma readonly_keys_members:
  assumes d: "distinct (map pname ps)"
  shows "set (members (PickReadOnlyKeys snc (TObj ps))) =
           {TStrLit (pname p) | p. p \<in> set ps \<and> pro p}
           \<union> (if snc \<and> (\<exists>p \<in> set ps. popt p) then {TUndefined} else {})"
    and "set (members (PickMutableKeys snc (TObj ps))) =
           {TStrLit (pname p) | p. p \<in> set ps \<and> \<not> pro p}
           \<union> (if snc \<and> (\<exists>p \<in> set ps. popt p) then {TUndefined} else {})"
proof -
  let ?T = "TObj ps"
  have k: "keys_in (keyof ?T) = map pname ps" by (rule keys_of_shape(2)[OF d])
  have f: "\<And>p. p \<in> set ps \<Longrightarrow> prop_named ?T (pname p) = Some p"
    using find_distinct_name[OF d] by (simp add: prop_named_def)
  have rd: "\<And>t k b r. t = TNever \<or> t = TStrLit k \<Longrightarrow>
              prop_read snc (mk_prop snc k t b r False)
                = (if snc \<and> b then union_of [t, TUndefined] else t)"
    by (auto simp: prop_read_def mk_prop_def with_undefined_def
        remove_undefined_key remove_undefined_never)
  have gen: "set (members (index_access snc
                 (mapped snc Keep Keep ?T (keyof ?T)
                    (\<lambda>k. conditional (is_readonly_key snc ?T k)
                            (is_readonly_key snc ?T k = TBoolLit True) (a k) (b k)))
                 (keyof ?T))) =
             {TStrLit (pname p) | p. p \<in> set ps \<and> pro p = want}
             \<union> (if snc \<and> (\<exists>p \<in> set ps. popt p) then {TUndefined} else {})"
    if ab: "\<And>k. a k = (if want then TStrLit k else TNever)"
           "\<And>k. b k = (if want then TNever else TStrLit k)" for a b want
  proof -
    let ?tm = "\<lambda>k. conditional (is_readonly_key snc ?T k)
                            (is_readonly_key snc ?T k = TBoolLit True) (a k) (b k)"
    let ?rd = "\<lambda>p. if snc \<and> popt p
                    then union_of [if pro p = want then TStrLit (pname p) else TNever, TUndefined]
                    else (if pro p = want then TStrLit (pname p) else TNever)"
    have tm: "\<And>p. p \<in> set ps \<Longrightarrow> ?tm (pname p) = (if pro p = want then TStrLit (pname p) else TNever)"
      using single_projection_identical[OF d, of _ snc]
      by (auto simp: conditional_def ab)
    have "map (\<lambda>k. prop_read snc (mk_prop snc k (?tm k)
                (apply_modifier Keep (case prop_named ?T k of None \<Rightarrow> False | Some p \<Rightarrow> popt p))
                (apply_modifier Keep (case prop_named ?T k of None \<Rightarrow> False | Some p \<Rightarrow> pro p))
                (Keep = Remove \<and> (case prop_named ?T k of None \<Rightarrow> False | Some p \<Rightarrow> popt p))))
              (map pname ps) = map ?rd ps"
      unfolding map_map comp_def
    proof (rule map_cong[OF refl])
      fix p assume p: "p \<in> set ps"
      show "prop_read snc (mk_prop snc (pname p) (?tm (pname p))
                (apply_modifier Keep (case prop_named ?T (pname p) of None \<Rightarrow> False | Some p \<Rightarrow> popt p))
                (apply_modifier Keep (case prop_named ?T (pname p) of None \<Rightarrow> False | Some p \<Rightarrow> pro p))
                (Keep = Remove \<and> (case prop_named ?T (pname p) of None \<Rightarrow> False | Some p \<Rightarrow> popt p)))
            = ?rd p"
        unfolding tm[OF p] f[OF p]
        using rd[of "if pro p = want then TStrLit (pname p) else TNever" "pname p" "popt p" "pro p"]
        by (simp add: apply_modifier_def)
    qed
    then have ia: "index_access snc (mapped snc Keep Keep ?T (keyof ?T) ?tm) (keyof ?T)
                     = union_of (map ?rd ps)"
      unfolding index_mapped[OF k] by (simp only:)
    have mr: "\<And>p. set (members (?rd p)) =
                (if pro p = want then {TStrLit (pname p)} else {})
                \<union> (if snc \<and> popt p then {TUndefined} else {})"
      using members_with_undefined by auto
    have cm: "set (concat (map members (map ?rd ps))) =
                {TStrLit (pname p) | p. p \<in> set ps \<and> pro p = want}
                \<union> (if snc \<and> (\<exists>p \<in> set ps. popt p) then {TUndefined} else {})"
    proof -
      have "set (concat (map members (map ?rd ps))) = (\<Union>p \<in> set ps. set (members (?rd p)))"
        by simp
      also have "\<dots> = (\<Union>p \<in> set ps. (if pro p = want then {TStrLit (pname p)} else {})
                \<union> (if snc \<and> popt p then {TUndefined} else {}))"
        by (simp only: mr)
      also have "\<dots> = {TStrLit (pname p) | p. p \<in> set ps \<and> pro p = want}
                \<union> (if snc \<and> (\<exists>p \<in> set ps. popt p) then {TUndefined} else {})"
        by (auto split: if_splits)
      finally show ?thesis .
    qed
    have "set (members (union_of (map ?rd ps))) = set (concat (map members (map ?rd ps)))"
      by (rule members_union_of_set) (auto simp only: cm split: if_splits)
    with cm ia show ?thesis by simp
  qed
  show "set (members (PickReadOnlyKeys snc ?T)) =
           {TStrLit (pname p) | p. p \<in> set ps \<and> pro p}
           \<union> (if snc \<and> (\<exists>p \<in> set ps. popt p) then {TUndefined} else {})"
    unfolding PickReadOnlyKeys_def using gen[of "\<lambda>k. TStrLit k" True "\<lambda>k. TNever"] by simp
  show "set (members (PickMutableKeys snc ?T)) =
           {TStrLit (pname p) | p. p \<in> set ps \<and> \<not> pro p}
           \<union> (if snc \<and> (\<exists>p \<in> set ps. popt p) then {TUndefined} else {})"
    unfolding PickMutableKeys_def using gen[of "\<lambda>k. TNever" False "\<lambda>k. TStrLit k"] by simp
qed

lemma all_keys_members:
  assumes d: "distinct (map pname ps)"
  shows "set (members (PickAllKeys snc (TObj ps))) = {TStrLit (pname p) | p. p \<in> set ps}"
proof -
  have k: "keys_in (keyof (TObj ps)) = map pname ps" by (rule keys_of_shape(2)[OF d])
  have rd: "\<And>k b r s. prop_read snc (mk_prop snc k (TStrLit k) (apply_modifier Remove b) r s) = TStrLit k"
    by (auto simp: prop_read_def mk_prop_def apply_modifier_def remove_undefined_key)
  have e: "PickAllKeys snc (TObj ps) = union_of (map (\<lambda>k. TStrLit k) (map pname ps))"
    unfolding PickAllKeys_def index_mapped[OF k] by (simp add: rd)
  show ?thesis
    unfolding e by (subst key_or_never_members) auto
qed

text \<open>
  C3 at the shape \<open>{readonly name: string; age?: number}\<close> with strictNullChecks: the
  outer mapped types of \<open>PickReadOnlyKeys\<close> and \<open>PickMutableKeys\<close> keep the optional
  attribute of \<open>age\<close>, so reading that property gives its type joined with \<open>undefined\<close>,
  and \<open>undefined\<close> is a member of both results and not of \<open>PickAllKeys<T>\<close>.
\<close>

theorem PickReadOnlyKeys_leaks_undefined:
  "PickReadOnlyKeys True (TObj [Prop ''name'' TString False True, Prop ''age'' TNumber True False])
     = TUnion [TStrLit ''name'', TUndefined]
   \<and> PickMutableKeys True (TObj [Prop ''name'' TString False True, Prop ''age'' TNumber True False])
     = TUnion [TStrLit ''age'', TUndefined]
   \<and> PickAllKeys True (TObj [Prop ''name'' TString False True, Prop ''age'' TNumber True False])
     = TUnion [TStrLit ''name'', TStrLit ''age'']"
  by code_simp

text \<open>
  Every key is still classified exactly once, and where no \<open>undefined\<close> gets in (no
  optional key, or no strictNullChecks) the two unions are disjoint and make up
  \<open>PickAllKeys<T>\<close>.
\<close>

lemma readonly_mutable_classify:
  assumes d: "distinct (map pname ps)" and p: "p \<in> set ps"
  shows "key_member (pname p) (PickReadOnlyKeys snc (TObj ps)) = pro p"
    and "key_member (pname p) (PickMutableKeys snc (TObj ps)) = (\<not> pro p)"
proof -
  have u: "\<And>q. q \<in> set ps \<Longrightarrow> pname q = pname p \<Longrightarrow> q = p"
    using d p by (simp add: distinct_map inj_on_def)
  have in_keys: "(TStrLit (pname p) \<in> {TStrLit (pname q) | q. q \<in> set ps \<and> P q} \<union> X) = P p"
    if "X \<subseteq> {TUndefined}" for P X
  proof
    assume "TStrLit (pname p) \<in> {TStrLit (pname q) | q. q \<in> set ps \<and> P q} \<union> X"
    with that obtain q where q: "pname q = pname p" "q \<in> set ps" "P q" by auto
    with u[of q] show "P p" by simp
  next
    assume "P p"
    with p have "TStrLit (pname p) \<in> {TStrLit (pname q) | q. q \<in> set ps \<and> P q}"
      by (intro CollectI exI[of _ p]) simp
    then show "TStrLit (pname p) \<in> {TStrLit (pname q) | q. q \<in> set ps \<and> P q} \<union> X" by simp
  qed
  show "key_member (pname p) (PickReadOnlyKeys snc (TObj ps)) = pro p"
    unfolding key_member_def readonly_keys_members(1)[OF d] by (rule in_keys) simp
  show "key_member (pname p) (PickMutableKeys snc (TObj ps)) = (\<not> pro p)"
    unfolding key_member_def readonly_keys_members(2)[OF d] by (rule in_keys) simp
qed

lemma readonly_mutable_partition:
  assumes d: "distinct (map pname ps)" and o: "snc \<longrightarrow> list_all (\<lambda>p. \<not> popt p) ps"
  shows "set (members (PickReadOnlyKeys snc (TObj ps)))
           \<inter> set (members (PickMutableKeys snc (TObj ps))) = {}"
    and "set (members (PickReadOnlyKeys snc (TObj ps)))
           \<union> set (members (PickMutableKeys snc (TObj ps)))
         = set (members (PickAllKeys snc (TObj ps)))"
proof -
  have no: "\<not> (snc \<and> (\<exists>p \<in> set ps. popt p))" using o by (auto simp: list_all_iff)
  have u: "\<And>p q. p \<in> set ps \<Longrightarrow> q \<in> set ps \<Longrightarrow> pname q = pname p \<Longrightarrow> q = p"
    using d by (simp add: distinct_map inj_on_def)
  have r: "set (members (PickReadOnlyKeys snc (TObj ps))) = {TStrLit (pname p) | p. p \<in> set ps \<and> pro p}"
    using readonly_keys_members(1)[OF d, of snc] no by simp
  have m: "set (members (PickMutableKeys snc (TObj ps))) = {TStrLit (pname p) | p. p \<in> set ps \<and> \<not> pro p}"
    using readonly_keys_members(2)[OF d, of snc] no by simp
  show "set (members (PickReadOnlyKeys snc (TObj ps)))
           \<inter> set (members (PickMutableKeys snc (TObj ps))) = {}"
    unfolding r m using u by auto
  show "set (members (PickReadOnlyKeys snc (TObj ps)))
           \<union> set (members (PickMutableKeys snc (TObj ps)))
         = set (members (PickAllKeys snc (TObj ps)))"
    unfolding r m all_keys_members[OF d] by auto
qed

section \<open>The round trip through DeepReadOnly and DeepMutable\<close>

lemma struct_facts:
  "struct t \<Longrightarrow> members t = [t] \<and> t \<noteq> TAny \<and> t \<noteq> TUnknown \<and> \<not> literal_absorbed xs t"
  by (cases t) (simp_all add: literal_absorbed_def)

lemma simple_object_struct: "simple t \<Longrightarrow> plain t \<Longrightarrow> extends_object snc t \<Longrightarrow> struct t"
  by (cases t) simp_all

lemma struct_deep: "struct t \<Longrightarrow> struct (deep_mapped snc rm om t)"
  by (cases t) simp_all

lemma struct_deep_object:
  "struct t \<Longrightarrow> extends_object snc (deep_mapped snc rm om t) = extends_object snc t"
  by (cases t) simp_all

lemma template_roundtrip:
  assumes "d \<noteq> TAny \<Longrightarrow> extends_object snc d \<Longrightarrow>
             g (f d) = d \<and> extends_object snc (f d) \<and> f d \<noteq> TAny"
  shows "template snc g (template snc f d) = d"
  using assms by (auto simp: template_def)

lemma template_keeps_optional_read:
  "template True f (union_of [d, TUndefined]) = union_of [d, TUndefined]"
  using undefined_in_union_not_object[of d] by (auto simp: template_def)

text \<open>One property, there and back.\<close>

lemma prop_roundtrip:
  assumes n: "normal snc (ptype p)" "snc \<and> popt p \<longrightarrow> TUndefined \<notin> set (members (ptype p))"
    and ro: "\<not> pro p"
    and ih: "ptype p \<noteq> TAny \<Longrightarrow> extends_object snc (ptype p) \<Longrightarrow>
               g (f (ptype p)) = ptype p \<and> extends_object snc (f (ptype p)) \<and> f (ptype p) \<noteq> TAny"
  shows "(let q = mk_prop snc (pname p) (template snc f (prop_read snc p))
                    (apply_modifier Keep (popt p)) (apply_modifier Add (pro p))
                    (Keep = Remove \<and> popt p)
          in mk_prop snc (pname q) (template snc g (prop_read snc q))
               (apply_modifier Keep (popt q)) (apply_modifier Remove (pro q))
               (Keep = Remove \<and> popt q)) = p"
proof (cases "snc \<and> popt p")
  case True
  then have r: "prop_read snc p = union_of [ptype p, TUndefined]"
    by (simp add: prop_read_def with_undefined_def)
  have s: "remove_undefined (union_of [ptype p, TUndefined]) = ptype p"
    using normal_strip n True by simp
  show ?thesis
    using True ro r s
    by (cases p) (simp add: mk_prop_def apply_modifier_def prop_read_def with_undefined_def
        template_keeps_optional_read)
next
  case False
  then have r: "\<And>t b. prop_read snc (Prop (pname p) t (popt p) b) = t"
    by (auto simp: prop_read_def with_undefined_def)
  have "prop_read snc p = ptype p" using r[of "ptype p" "pro p"] by simp
  moreover have "template snc g (template snc f (ptype p)) = ptype p"
    using ih by (rule template_roundtrip)
  ultimately show ?thesis
    using False ro r by (cases p) (auto simp: mk_prop_def apply_modifier_def)
qed

lemma elem_roundtrip:
  assumes n: "normal snc (etype e)" "snc \<and> eopt e \<longrightarrow> TUndefined \<notin> set (members (etype e))"
    and ih: "etype e \<noteq> TAny \<Longrightarrow> extends_object snc (etype e) \<Longrightarrow>
               g (f (etype e)) = etype e \<and> extends_object snc (f (etype e)) \<and> f (etype e) \<noteq> TAny"
  shows "(let q = mk_elem snc (template snc f (elem_read snc e))
                    (apply_modifier Keep (eopt e)) (Keep = Remove \<and> eopt e)
          in mk_elem snc (template snc g (elem_read snc q))
               (apply_modifier Keep (eopt q)) (Keep = Remove \<and> eopt q)) = e"
proof (cases "snc \<and> eopt e")
  case True
  then have r: "elem_read snc e = union_of [etype e, TUndefined]"
    by (simp add: elem_read_def with_undefined_def)
  have s: "remove_undefined (union_of [etype e, TUndefined]) = etype e"
    using normal_strip n True by simp
  show ?thesis
    using True r s
    by (cases e) (simp add: mk_elem_def apply_modifier_def elem_read_def with_undefined_def
        template_keeps_optional_read)
next
  case False
  then have r: "\<And>t. elem_read snc (Elem t (eopt e)) = t"
    by (auto simp: elem_read_def with_undefined_def)
  have "elem_read snc e = etype e" using r[of "etype e"] by simp
  moreover have "template snc g (template snc f (etype e)) = etype e"
    using ih by (rule template_roundtrip)
  ultimately show ?thesis
    using False r by (cases e) (auto simp: mk_elem_def apply_modifier_def)
qed

lemma roundtrip_main:
  "normal snc t \<Longrightarrow> plain t \<Longrightarrow> extends_object snc t \<Longrightarrow> t \<noteq> TAny \<Longrightarrow>
     deep_mapped snc Remove Keep (deep_mapped snc Add Keep t) = t
     \<and> extends_object snc (deep_mapped snc Add Keep t)
     \<and> deep_mapped snc Add Keep t \<noteq> TAny
     \<and> (simple t \<longrightarrow> struct (deep_mapped snc Add Keep t))"
proof (induction t)
  case (TObj ps)
  let ?f = "deep_mapped snc Add Keep" and ?g = "deep_mapped snc Remove Keep"
  have each: "\<And>p. p \<in> set ps \<Longrightarrow>
      (let q = mk_prop snc (pname p) (template snc ?f (prop_read snc p))
                    (apply_modifier Keep (popt p)) (apply_modifier Add (pro p))
                    (Keep = Remove \<and> popt p)
          in mk_prop snc (pname q) (template snc ?g (prop_read snc q))
               (apply_modifier Keep (popt q)) (apply_modifier Remove (pro q))
               (Keep = Remove \<and> popt q)) = p"
  proof -
    fix p assume p: "p \<in> set ps"
    have n: "normal snc (ptype p)" "snc \<and> popt p \<longrightarrow> TUndefined \<notin> set (members (ptype p))"
      and ro: "\<not> pro p" and pl: "plain (ptype p)"
      using TObj.prems p by (auto simp: list_all_iff)
    have ih: "ptype p \<noteq> TAny \<Longrightarrow> extends_object snc (ptype p) \<Longrightarrow>
               ?g (?f (ptype p)) = ptype p \<and> extends_object snc (?f (ptype p)) \<and> ?f (ptype p) \<noteq> TAny"
      using TObj.IH[of p "ptype p"] p n(1) pl property.set_sel(1)[of p] by blast
    show "?thesis p" using n ro ih by (rule prop_roundtrip)
  qed
  have "?g (?f (TObj ps)) = TObj ps"
    using each by (simp add: comp_def Let_def map_idI)
  then show ?case by simp
next
  case (TArray ro t)
  let ?f = "deep_mapped snc Add Keep" and ?g = "deep_mapped snc Remove Keep"
  have ih: "t \<noteq> TAny \<Longrightarrow> extends_object snc t \<Longrightarrow>
               ?g (?f t) = t \<and> extends_object snc (?f t) \<and> ?f t \<noteq> TAny"
    using TArray by simp
  have "template snc ?g (template snc ?f t) = t"
    using ih by (rule template_roundtrip)
  then show ?case using TArray.prems by (simp add: apply_modifier_def)
next
  case (TTuple ro es)
  let ?f = "deep_mapped snc Add Keep" and ?g = "deep_mapped snc Remove Keep"
  have each: "\<And>e. e \<in> set es \<Longrightarrow>
      (let q = mk_elem snc (template snc ?f (elem_read snc e))
                    (apply_modifier Keep (eopt e)) (Keep = Remove \<and> eopt e)
          in mk_elem snc (template snc ?g (elem_read snc q))
               (apply_modifier Keep (eopt q)) (Keep = Remove \<and> eopt q)) = e"
  proof -
    fix e assume e: "e \<in> set es"
    have n: "normal snc (etype e)" "snc \<and> eopt e \<longrightarrow> TUndefined \<notin> set (members (etype e))"
      and pl: "plain (etype e)"
      using TTuple.prems e by (auto simp: list_all_iff)
    have ih: "etype e \<noteq> TAny \<Longrightarrow> extends_object snc (etype e) \<Longrightarrow>
               ?g (?f (etype e)) = etype e \<and> extends_object snc (?f (etype e)) \<and> ?f (etype e) \<noteq> TAny"
      using TTuple.IH[of e "etype e"] e n(1) pl element.set_sel(1)[of e] by blast
    show "?thesis e" using n ih by (rule elem_roundtrip)
  qed
  have "?g (?f (TTuple ro es)) = TTuple ro es"
    using each TTuple.prems by (simp add: comp_def Let_def map_idI apply_modifier_def)
  then show ?case by simp
next
  case (TUnion ms)
  let ?f = "deep_mapped snc Add Keep" and ?g = "deep_mapped snc Remove Keep"
  have m: "\<And>m. m \<in> set ms \<Longrightarrow> ?g (?f m) = m \<and> extends_object snc (?f m) \<and> struct (?f m)"
  proof -
    fix m assume m: "m \<in> set ms"
    have "normal snc m" "plain m" "extends_object snc m" "simple m"
      using TUnion.prems m by (auto simp: list_all_iff)
    moreover from this have "m \<noteq> TAny" by auto
    ultimately show "?g (?f m) = m \<and> extends_object snc (?f m) \<and> struct (?f m)"
      using TUnion.IH[OF m] by simp
  qed
  have inj: "inj_on ?f (set ms)"
    using m by (intro inj_on_inverseI[of _ ?g]) simp
  have d: "distinct (map ?f ms)"
    using TUnion.prems inj by (simp add: distinct_map)
  have len: "2 \<le> length (map ?f ms)" using TUnion.prems by simp
  have sf: "\<And>x. x \<in> set (map ?f ms) \<Longrightarrow>
              members x = [x] \<and> x \<noteq> TAny \<and> x \<noteq> TUnknown \<and> \<not> literal_absorbed (map ?f ms) x"
    using m struct_facts by auto
  have "union_of (map ?f ms) =
          (case map ?f ms of [] \<Rightarrow> TNever | [t] \<Rightarrow> t | _ \<Rightarrow> TUnion (map ?f ms))"
  proof (rule union_of_canonical)
    show "distinct (map ?f ms)" by (rule d)
    show "TAny \<notin> set (map ?f ms)" using sf by blast
    show "TUnknown \<notin> set (map ?f ms)" using sf by blast
  qed (use sf in blast)+
  also have "\<dots> = TUnion (map ?f ms)"
    using len by (cases ms; cases "tl ms") auto
  finally have u: "union_of (map ?f ms) = TUnion (map ?f ms)" .
  then have f: "?f (TUnion ms) = TUnion (map ?f ms)" by simp
  have "map ?g (map ?f ms) = ms" using m by (simp add: map_idI)
  then have "?g (?f (TUnion ms)) = union_of ms" by (simp add: u comp_def)
  moreover have "union_of ms = TUnion ms"
  proof -
    have sm: "\<And>x. x \<in> set ms \<Longrightarrow> members x = [x]"
      using TUnion.prems by (auto simp: list_all_iff simple_members)
    have "union_of [TUnion ms] = union_of (concat (map members [TUnion ms]))"
      by (simp only: union_of_members)
    also have "\<dots> = union_of ms"
      using concat_map_singleton[of ms members, OF sm] by simp
    finally show ?thesis using normal_union_self[OF TUnion.prems(1)] by simp
  qed
  ultimately have rt: "?g (?f (TUnion ms)) = TUnion ms" by simp
  have "extends_object snc (?f (TUnion ms))"
    using m by (simp add: u list_all_iff)
  with rt f show ?case by (simp add: u)
qed simp_all

text \<open>
  C2, as amended. For every object shape \<open>T\<close> with no read-only marker, no function type
  and no intersection at any depth, \<open>DeepMutable<DeepReadOnly<T>>\<close> is identical to \<open>T\<close>
  (it is the same shape), nested object shapes, arrays, tuples and unions included.
\<close>

theorem DeepMutable_DeepReadOnly_roundtrip:
  assumes "normal snc (TObj ps)" "plain (TObj ps)"
  shows "identical (DeepMutable snc (DeepReadOnly snc (TObj ps))) (TObj ps)
         \<and> DeepMutable snc (DeepReadOnly snc (TObj ps)) = TObj ps"
proof -
  have "deep_mapped snc Remove Keep (deep_mapped snc Add Keep (TObj ps)) = TObj ps"
    using roundtrip_main[OF assms] by simp
  then have "DeepMutable snc (DeepReadOnly snc (TObj ps)) = TObj ps"
    by (simp only: DeepMutable_def DeepReadOnly_def)
  then show ?thesis using identical_refl by simp
qed

theorem DeepMutable_DeepReadOnly_roundtrip_witness:
  "normal True (TObj [Prop ''value'' TString False False,
                      Prop ''next'' (TObj [Prop ''data'' TNumber False False]) False False,
                      Prop ''xs'' (TArray False TString) False False,
                      Prop ''opt'' (TObj [Prop ''k'' TNumber False False]) True False])
   \<and> plain (TObj [Prop ''value'' TString False False,
                      Prop ''next'' (TObj [Prop ''data'' TNumber False False]) False False,
                      Prop ''xs'' (TArray False TString) False False,
                      Prop ''opt'' (TObj [Prop ''k'' TNumber False False]) True False])
   \<and> DeepReadOnly True (TObj [Prop ''value'' TString False False,
                      Prop ''next'' (TObj [Prop ''data'' TNumber False False]) False False,
                      Prop ''xs'' (TArray False TString) False False,
                      Prop ''opt'' (TObj [Prop ''k'' TNumber False False]) True False])
       = TObj [Prop ''value'' TString False True,
               Prop ''next'' (TObj [Prop ''data'' TNumber False True]) False True,
               Prop ''xs'' (TArray True TString) False True,
               Prop ''opt'' (TObj [Prop ''k'' TNumber False False]) True True]
   \<and> DeepMutable True (DeepReadOnly True (TObj [Prop ''value'' TString False False,
                      Prop ''next'' (TObj [Prop ''data'' TNumber False False]) False False,
                      Prop ''xs'' (TArray False TString) False False,
                      Prop ''opt'' (TObj [Prop ''k'' TNumber False False]) True False]))
       = TObj [Prop ''value'' TString False False,
                      Prop ''next'' (TObj [Prop ''data'' TNumber False False]) False False,
                      Prop ''xs'' (TArray False TString) False False,
                      Prop ''opt'' (TObj [Prop ''k'' TNumber False False]) True False]"
proof -
  let ?T = "TObj [Prop ''value'' TString False False,
                      Prop ''next'' (TObj [Prop ''data'' TNumber False False]) False False,
                      Prop ''xs'' (TArray False TString) False False,
                      Prop ''opt'' (TObj [Prop ''k'' TNumber False False]) True False]"
  have n: "normal True ?T" by simp
  have p: "plain ?T" by simp
  have r: "DeepReadOnly True ?T = TObj [Prop ''value'' TString False True,
               Prop ''next'' (TObj [Prop ''data'' TNumber False True]) False True,
               Prop ''xs'' (TArray True TString) False True,
               Prop ''opt'' (TObj [Prop ''k'' TNumber False False]) True True]"
    by code_simp
  from DeepMutable_DeepReadOnly_roundtrip[OF n p] n p r show ?thesis by blast
qed

text \<open>
  C2 as stated fails: a function-typed property comes back as the empty shape, a
  property that was read-only in \<open>T\<close> comes back mutable, and an intersection-typed
  property comes back as one flattened shape, which the identity relation tells from the
  intersection.
\<close>

theorem DeepMutable_DeepReadOnly_counterexample:
  "normal True (TObj [Prop ''f'' (TFun [] (Plain TString)) False False])
   \<and> \<not> identical
        (DeepMutable True (DeepReadOnly True
           (TObj [Prop ''f'' (TFun [] (Plain TString)) False False])))
        (TObj [Prop ''f'' (TFun [] (Plain TString)) False False])
   \<and> normal True (TObj [Prop ''a'' TString False True])
   \<and> \<not> identical
        (DeepMutable True (DeepReadOnly True (TObj [Prop ''a'' TString False True])))
        (TObj [Prop ''a'' TString False True])
   \<and> normal True (TObj [Prop ''x'' (TInter (TObj [Prop ''a'' TString False False])
                                             (TObj [Prop ''b'' TNumber False False])) False False])
   \<and> \<not> identical
        (DeepMutable True (DeepReadOnly True
           (TObj [Prop ''x'' (TInter (TObj [Prop ''a'' TString False False])
                                     (TObj [Prop ''b'' TNumber False False])) False False])))
        (TObj [Prop ''x'' (TInter (TObj [Prop ''a'' TString False False])
                                  (TObj [Prop ''b'' TNumber False False])) False False])"
  by code_simp

end
